theory Spec2Isabelle
  imports Complex_Main "HOL-Library.Word"
begin

section \<open>Data model\<close>

text \<open>
  \<^verbatim>\<open>mpu6050_sample_float_t\<close> (mpu6050_lib.h): seven C \<^verbatim>\<open>float\<close> members. A member is
  modelled by the real number that it holds, so copies and comparisons are exact. The
  producer's additions and divisions are modelled by the exact operations; the C operations
  round their results and overflow to an infinity, so the model agrees with the program only
  where the C operations are exact, as they are on the values 0 and 1, at which this theory
  evaluates them.
\<close>

record mpu6050_sample_float_t =
  ax :: real
  ay :: real
  az :: real
  gx :: real
  gy :: real
  gz :: real
  temp :: real

text \<open>The value of \<^verbatim>\<open>mpu6050_sample_float_t x = {0}\<close> and of zeroed memory.\<close>

definition zero_sample :: mpu6050_sample_float_t where
  "zero_sample = \<lparr>ax = 0, ay = 0, az = 0, gx = 0, gy = 0, gz = 0, temp = 0\<rparr>"

text \<open>
  \<^verbatim>\<open>cached_data_t\<close> (server, unnamed/part_002:31-38), without the mutex and the condition
  variable: every access in the source is inside one \<^verbatim>\<open>pthread_mutex_lock\<close>/\<^verbatim>\<open>unlock\<close> section,
  and each such section is one function of the model. \<^verbatim>\<open>version\<close> is a \<^verbatim>\<open>uint64_t\<close>.
\<close>

record cached_data_t =
  current_sample :: mpu6050_sample_float_t
  average :: mpu6050_sample_float_t
  version :: "64 word"

text \<open>\<^verbatim>\<open>#define BUFFER_SIZE 16\<close> (producer.h).\<close>

definition BUFFER_SIZE :: nat where
  "BUFFER_SIZE = 16"

text \<open>
  \<^verbatim>\<open>shared_data_t\<close> (producer.h): \<^verbatim>\<open>buffer[BUFFER_SIZE]\<close>, \<^verbatim>\<open>average\<close>, \<^verbatim>\<open>count\<close>,
  \<^verbatim>\<open>write_index\<close>. The two \<^verbatim>\<open>size_t\<close> members are natural numbers; from the zeroed segment
  they stay at most \<open>BUFFER_SIZE\<close> (lemma \<open>reachable_bounds\<close>), so no unsigned operation
  wraps.
\<close>

record shared_data_t =
  buffer :: "mpu6050_sample_float_t list"
  average :: mpu6050_sample_float_t
  count :: nat
  write_index :: nat

text \<open>The segment after \<^verbatim>\<open>memset(shared_data, 0, sizeof(shared_data_t))\<close> (producer.c:50).\<close>

definition zero_shared :: shared_data_t where
  "zero_shared =
     \<lparr>buffer = replicate BUFFER_SIZE zero_sample, average = zero_sample,
      count = 0, write_index = 0\<rparr>"

section \<open>Producer: one write into the ring buffer (producer.c:135-163)\<close>

text \<open>
  Lines 135-138: store at the cursor, advance the cursor modulo the capacity, saturate the
  count. The cursor is inside the array in every state reached from the zeroed segment
  (lemma \<open>reachable_bounds\<close>); the list update leaves the buffer alone elsewhere.
\<close>

definition ring_store :: "mpu6050_sample_float_t \<Rightarrow> shared_data_t \<Rightarrow> shared_data_t" where
  "ring_store sample sd =
     sd\<lparr>buffer := (buffer sd)[write_index sd := sample],
        write_index := (write_index sd + 1) mod BUFFER_SIZE,
        count := (if count sd < BUFFER_SIZE then count sd + 1 else count sd)\<rparr>"

text \<open>One pass of the body of the \<^verbatim>\<open>for\<close> loop, lines 145-151.\<close>

definition acc_add :: "mpu6050_sample_float_t \<Rightarrow> mpu6050_sample_float_t \<Rightarrow> mpu6050_sample_float_t" where
  "acc_add avg s =
     \<lparr>ax = ax avg + ax s, ay = ay avg + ay s, az = az avg + az s,
      gx = gx avg + gx s, gy = gy avg + gy s, gz = gz avg + gz s,
      temp = temp avg + temp s\<rparr>"

text \<open>The loop \<^verbatim>\<open>for (size_t i = 0; i < shared_data->count; i++)\<close>, lines 143-152, from index \<open>i\<close>.\<close>

function sum_loop :: "mpu6050_sample_float_t list \<Rightarrow> nat \<Rightarrow> nat \<Rightarrow> mpu6050_sample_float_t \<Rightarrow> mpu6050_sample_float_t" where
  "sum_loop buf n i avg = (if i < n then sum_loop buf n (i + 1) (acc_add avg (buf ! i)) else avg)"
  by pat_completeness auto
termination
  by (relation "measure (\<lambda>(buf, n, i, avg). n - i)") auto

declare sum_loop.simps [simp del]

text \<open>Lines 153-162: the seven divisions by \<^verbatim>\<open>count\<close>, guarded by \<^verbatim>\<open>count > 0\<close>.\<close>

definition acc_div :: "mpu6050_sample_float_t \<Rightarrow> nat \<Rightarrow> mpu6050_sample_float_t" where
  "acc_div avg n =
     (if n > 0 then
        \<lparr>ax = ax avg / real n, ay = ay avg / real n, az = az avg / real n,
         gx = gx avg / real n, gy = gy avg / real n, gz = gz avg / real n,
         temp = temp avg / real n\<rparr>
      else avg)"

text \<open>Lines 140-163: the average over \<^verbatim>\<open>buffer[0 .. count-1]\<close>.\<close>

definition compute_average :: "shared_data_t \<Rightarrow> mpu6050_sample_float_t" where
  "compute_average sd = acc_div (sum_loop (buffer sd) (count sd) 0 zero_sample) (count sd)"

text \<open>Lines 133-165, the critical section of one producer cycle whose device record parsed.\<close>

definition producer_write :: "mpu6050_sample_float_t \<Rightarrow> shared_data_t \<Rightarrow> shared_data_t" where
  "producer_write sample sd =
     (let sd' = ring_store sample sd in sd'\<lparr>average := compute_average sd'\<rparr>)"

text \<open>Successive cycles of the \<^verbatim>\<open>while (running)\<close> loop, in arrival order of the samples.\<close>

fun producer_writes :: "mpu6050_sample_float_t list \<Rightarrow> shared_data_t \<Rightarrow> shared_data_t" where
  "producer_writes [] sd = sd"
| "producer_writes (s # ss) sd = producer_writes ss (producer_write s sd)"

section \<open>Server: the cache and its reader thread (unnamed/part_002:40-228)\<close>

text \<open>
  The static initialiser of \<^verbatim>\<open>g_cached_data\<close> (lines 40-43): \<^verbatim>\<open>.version = 0\<close>, and the members it
  does not name are zero-initialised.
\<close>

definition g_cached_data :: cached_data_t where
  "g_cached_data =
     \<lparr>cached_data_t.current_sample = zero_sample, cached_data_t.average = zero_sample, version = 0\<rparr>"

text \<open>Lines 177-182: the critical section that stores one pair; \<^verbatim>\<open>version++\<close> wraps at \<open>2^64\<close>.\<close>

definition cache_publish ::
  "mpu6050_sample_float_t \<Rightarrow> mpu6050_sample_float_t \<Rightarrow> cached_data_t \<Rightarrow> cached_data_t" where
  "cache_publish sample avg c =
     c\<lparr>cached_data_t.current_sample := sample, cached_data_t.average := avg, version := version c + 1\<rparr>"

text \<open>
  Lines 168-183, one pass of the body of \<^verbatim>\<open>while (running)\<close> in \<^verbatim>\<open>data_reader_thread\<close>. The first
  argument is \<^verbatim>\<open>g_shared_data\<close> (\<open>None\<close> for \<^verbatim>\<open>NULL\<close>, otherwise the contents of the segment
  while the semaphore is held), the third tells whether \<^verbatim>\<open>g_sem\<close> is non-null. Line 173 reads
  \<^verbatim>\<open>g_shared_data->current_sample\<close>, a member that the declaration of \<^verbatim>\<open>shared_data_t\<close> in
  producer.h does not have: its value is the argument \<open>shm_sample\<close>. Line 174 reads
  \<^verbatim>\<open>g_shared_data->buffer[BUFFER_SIZE - 1]\<close> into \<^verbatim>\<open>avg\<close>.
\<close>

definition data_reader_iteration ::
  "shared_data_t option \<Rightarrow> mpu6050_sample_float_t \<Rightarrow> bool \<Rightarrow> cached_data_t \<Rightarrow> cached_data_t" where
  "data_reader_iteration g_shared_data shm_sample g_sem c =
     (case g_shared_data of
        None \<Rightarrow> c
      | Some sd \<Rightarrow>
          if g_sem then
            (let sample = shm_sample;
                 avg = buffer sd ! (BUFFER_SIZE - 1)
             in cache_publish sample avg c)
          else c)"

text \<open>
  The thread's loop over the passes it makes before \<^verbatim>\<open>running\<close> is cleared: one element per
  pass, holding what \<^verbatim>\<open>g_shared_data\<close>, its \<^verbatim>\<open>current_sample\<close> and \<^verbatim>\<open>g_sem\<close> are at that pass.
\<close>

fun data_reader_thread ::
  "(shared_data_t option \<times> mpu6050_sample_float_t \<times> bool) list \<Rightarrow> cached_data_t \<Rightarrow> cached_data_t" where
  "data_reader_thread [] c = c"
| "data_reader_thread ((g_shared_data, shm_sample, g_sem) # passes) c =
     data_reader_thread passes (data_reader_iteration g_shared_data shm_sample g_sem c)"

text \<open>
  Lines 190-198. Both pointer arguments are non-null at the only call site (line 258), so both
  copies are made.
\<close>

definition get_cached_data :: "cached_data_t \<Rightarrow> mpu6050_sample_float_t \<times> mpu6050_sample_float_t" where
  "get_cached_data c = (cached_data_t.current_sample c, cached_data_t.average c)"

text \<open>
  One return of \<^verbatim>\<open>pthread_cond_timedwait\<close> (line 217). While the caller was blocked the mutex
  was free: \<open>published\<close> lists the pairs that the reader thread stored in that time, in order;
  \<open>timed_out\<close> tells whether the call returned \<^verbatim>\<open>ETIMEDOUT\<close>; \<open>running_after\<close> is the value of
  \<^verbatim>\<open>running\<close> when the loop condition is evaluated next.
\<close>

datatype wake =
  Wake (published: "(mpu6050_sample_float_t \<times> mpu6050_sample_float_t) list")
       (timed_out: bool) (running_after: bool)

fun publish_all ::
  "(mpu6050_sample_float_t \<times> mpu6050_sample_float_t) list \<Rightarrow> cached_data_t \<Rightarrow> cached_data_t" where
  "publish_all [] c = c"
| "publish_all ((sample, avg) # ps) c = publish_all ps (cache_publish sample avg c)"

text \<open>
  Lines 215-220, the loop \<^verbatim>\<open>while (g_cached_data.version == last_version && running)\<close>, entered
  with the mutex held, the cache \<open>c\<close> and \<^verbatim>\<open>running\<close> equal to \<open>run\<close>. The result is the cache at
  the exit of the loop; \<open>None\<close> when the listed wake-ups are used up while the loop is still
  waiting.
\<close>

fun wait_loop :: "64 word \<Rightarrow> cached_data_t \<Rightarrow> bool \<Rightarrow> wake list \<Rightarrow> cached_data_t option" where
  "wait_loop last_version c run ws =
     (if version c = last_version \<and> run then
        (case ws of
           [] \<Rightarrow> None
         | w # ws' \<Rightarrow>
             (let c' = publish_all (published w) c in
              if timed_out w then Some c'
              else wait_loop last_version c' (running_after w) ws'))
      else Some c)"

declare wait_loop.simps [simp del]

text \<open>
  Lines 201-228. The deadline arithmetic of lines 204-212 only fixes when a wait times out,
  which the wake-ups carry. Returns \<^verbatim>\<open>new_version\<close> with the two copies (both pointers are
  non-null at the call site, line 402).
\<close>

definition wait_for_new_data ::
  "64 word \<Rightarrow> cached_data_t \<Rightarrow> bool \<Rightarrow> wake list \<Rightarrow>
   (64 word \<times> mpu6050_sample_float_t \<times> mpu6050_sample_float_t) option" where
  "wait_for_new_data last_version c run ws =
     (case wait_loop last_version c run ws of
        None \<Rightarrow> None
      | Some c' \<Rightarrow> Some (version c', cached_data_t.current_sample c', cached_data_t.average c'))"

section \<open>libc conversions used by the server\<close>

text \<open>\<^verbatim>\<open>isspace\<close> in the C locale: space, \<^verbatim>\<open>\t \n \v \f \r\<close>.\<close>

definition isspace :: "char \<Rightarrow> bool" where
  "isspace c \<longleftrightarrow> c \<in> set [CHR '' '', CHR 0x09, CHR 0x0A, CHR 0x0B, CHR 0x0C, CHR 0x0D]"

definition isdigit :: "char \<Rightarrow> bool" where
  "isdigit c \<longleftrightarrow> c \<in> set ''0123456789''"

definition skip_ws :: "string \<Rightarrow> string" where
  "skip_ws inp = dropWhile isspace inp"

text \<open>Ordinary characters of a \<^verbatim>\<open>scanf\<close> format: each must equal the next input character.\<close>

fun match_lit :: "string \<Rightarrow> string \<Rightarrow> string option" where
  "match_lit [] inp = Some inp"
| "match_lit (c # cs) [] = None"
| "match_lit (c # cs) (d # ds) = (if c = d then match_lit cs ds else None)"

definition dec_value :: "string \<Rightarrow> int" where
  "dec_value ds = foldl (\<lambda>a c. 10 * a + (int (of_char c) - 48)) 0 ds"

text \<open>
  What glibc stores for \<^verbatim>\<open>%d\<close> when the digits read denote \<open>n\<close>: the conversion is made by
  \<^verbatim>\<open>strtol\<close>, which saturates at the bounds of \<^verbatim>\<open>long\<close> (64 bits), and the result is stored
  through the \<^verbatim>\<open>int *\<close> argument by a conversion to \<^verbatim>\<open>int\<close>, which keeps the low 32 bits.
\<close>

definition store_int :: "int \<Rightarrow> int" where
  "store_int n = sint (word_of_int (max (- (2 ^ 63)) (min (2 ^ 63 - 1) n)) :: 32 word)"

text \<open>
  The directive \<^verbatim>\<open>%d\<close>: skip white space, an optional sign, one or more decimal digits. The
  result is the \<^verbatim>\<open>int\<close> stored and the rest of the input; \<open>None\<close> is a matching or input
  failure.
\<close>

definition scan_d :: "string \<Rightarrow> (int \<times> string) option" where
  "scan_d inp =
     (let r = skip_ws inp;
          neg = (r \<noteq> [] \<and> hd r = CHR ''-'');
          r1 = (if r \<noteq> [] \<and> (hd r = CHR ''-'' \<or> hd r = CHR ''+'') then tl r else r);
          ds = takeWhile isdigit r1
      in if ds = [] then None
         else Some (store_int (if neg then - dec_value ds else dec_value ds), drop (length ds) r1))"

text \<open>
  The directive \<^verbatim>\<open>%Ns\<close> with field width \<open>n\<close>: skip white space, then take at most \<open>n\<close>
  characters up to the next white space; an input failure when none is left.
\<close>

definition scan_s :: "nat \<Rightarrow> string \<Rightarrow> (string \<times> string) option" where
  "scan_s n inp =
     (let r = skip_ws inp;
          tok = take n (takeWhile (\<lambda>c. \<not> isspace c) r)
      in if tok = [] then None else Some (tok, drop (length tok) r))"

text \<open>The contents of a \<^verbatim>\<open>char\<close> array read as a C string: the bytes before the first NUL.\<close>

definition c_str :: "string \<Rightarrow> string" where
  "c_str bs = takeWhile (\<lambda>c. c \<noteq> CHR 0x00) bs"

text \<open>The conversion \<^verbatim>\<open>%d\<close> (and \<^verbatim>\<open>%ld\<close>) of \<^verbatim>\<open>printf\<close>.\<close>

fun dec_digits :: "nat \<Rightarrow> string" where
  "dec_digits n =
     (if n < 10 then [char_of (48 + n)] else dec_digits (n div 10) @ [char_of (48 + n mod 10)])"

declare dec_digits.simps [simp del]

definition print_d :: "int \<Rightarrow> string" where
  "print_d i = (if i < 0 then CHR ''-'' # dec_digits (nat (- i)) else dec_digits (nat i))"

text \<open>
  \<^verbatim>\<open>snprintf(buf, sz, ...)\<close> for the formatted text \<open>s\<close>: the characters stored in front of
  the NUL, and the return value, which is the length of the untruncated text.
\<close>

definition snprintf :: "nat \<Rightarrow> string \<Rightarrow> string \<times> int" where
  "snprintf sz s = (take (sz - 1) s, int (length s))"

section \<open>Server: configuration and signals (unnamed/part_002:23-111)\<close>

record server_config_t =
  max_connnections :: int
  backlog :: int
  port :: int

text \<open>\<^verbatim>\<open>DEFAULT_SERVER_CONFIG\<close> (line 46).\<close>

definition DEFAULT_SERVER_CONFIG :: server_config_t where
  "DEFAULT_SERVER_CONFIG = \<lparr>max_connnections = 10, backlog = 5, port = 3737\<rparr>"

text \<open>
  One call \<^verbatim>\<open>fscanf(file, "<key>%d\n", &x)\<close> that returns 1: the literal \<open>key\<close> (it holds no
  white space), the number, and the white space that the trailing \<^verbatim>\<open>\n\<close> of the format skips.
  The result is the number stored and the rest of the stream; \<open>None\<close> when the call returns
  anything but 1, and then nothing was stored.
\<close>

definition fscanf_key :: "string \<Rightarrow> string \<Rightarrow> (int \<times> string) option" where
  "fscanf_key key inp =
     (case match_lit key inp of
        None \<Rightarrow> None
      | Some r \<Rightarrow> (case scan_d r of None \<Rightarrow> None | Some (v, r') \<Rightarrow> Some (v, skip_ws r')))"

text \<open>
  \<^verbatim>\<open>read_config_from_file\<close> (lines 63-83). The first argument is the contents of
  \<^verbatim>\<open>server_config.cfg\<close>, \<open>None\<close> when \<^verbatim>\<open>fopen\<close> fails. Each \<^verbatim>\<open>fscanf\<close> stores through the pointer
  into the caller's structure, and \<^verbatim>\<open>||\<close> stops at the first call that does not return 1.
\<close>

definition read_config_from_file :: "string option \<Rightarrow> server_config_t \<Rightarrow> int \<times> server_config_t" where
  "read_config_from_file file server_config =
     (case file of
        None \<Rightarrow> (- 1, server_config)
      | Some inp \<Rightarrow>
          (case fscanf_key ''max_connections='' inp of
             None \<Rightarrow> (- 2, server_config)
           | Some (m, r1) \<Rightarrow>
               (let cfg1 = server_config\<lparr>max_connnections := m\<rparr> in
                case fscanf_key ''backlog='' r1 of
                  None \<Rightarrow> (- 2, cfg1)
                | Some (b, r2) \<Rightarrow>
                    (let cfg2 = cfg1\<lparr>backlog := b\<rparr> in
                     case fscanf_key ''port='' r2 of
                       None \<Rightarrow> (- 2, cfg2)
                     | Some (p, r3) \<Rightarrow> (0, cfg2\<lparr>port := p\<rparr>)))))"




text \<open>
  Lines 526-537 of \<^verbatim>\<open>main\<close>: the configuration at start-up, read into the zero-initialised
  global and replaced as a whole by the defaults when the read fails.
\<close>

definition startup_config :: "string option \<Rightarrow> server_config_t" where
  "startup_config file =
     (let (rc, cfg) = read_config_from_file file \<lparr>max_connnections = 0, backlog = 0, port = 0\<rparr>
      in if rc \<noteq> 0 then DEFAULT_SERVER_CONFIG else cfg)"

section \<open>Server: admission control (unnamed/part_002:54-61, 677-711)\<close>

text \<open>What is done to a socket, and the cleanup handler's decrement of the counter.\<close>

datatype event = Send string | ShutdownRDWR | Close | ActiveDec

datatype admission = RejectLimit | RejectAll | Admit

text \<open>
  Lines 679-696, the three-way test on the configured limit and the value that
  \<^verbatim>\<open>atomic_load(&g_active_connections)\<close> returned.
\<close>

definition admission_check :: "server_config_t \<Rightarrow> int \<Rightarrow> admission" where
  "admission_check cfg active_connections =
     (if max_connnections cfg > 0 \<and> active_connections \<ge> max_connnections cfg then RejectLimit
      else if max_connnections cfg = 0 then RejectAll
      else Admit)"

text \<open>
  Lines 677-711 run without interference, for one accepted socket: the new value of
  \<^verbatim>\<open>g_active_connections\<close>, what the acceptor itself does to the socket, and whether a handler
  thread now owns it. \<open>create_ok\<close> tells whether \<^verbatim>\<open>pthread_create\<close> succeeds.
\<close>

definition accept_connection :: "server_config_t \<Rightarrow> bool \<Rightarrow> int \<Rightarrow> int \<times> event list \<times> bool" where
  "accept_connection cfg create_ok g_active =
     (case admission_check cfg g_active of
        RejectLimit \<Rightarrow> (g_active, [Close], False)
      | RejectAll \<Rightarrow> (g_active, [Close], False)
      | Admit \<Rightarrow>
          if create_ok then (g_active + 1, [], True)
          else (g_active + 1 - 1, [Close], False))"

section \<open>Server: the connection handler (unnamed/part_002:230-521)\<close>

definition LF :: string where
  "LF = [CHR 0x0A]"

definition CRLF :: string where
  "CRLF = [CHR 0x0D, CHR 0x0A]"

text \<open>\<^verbatim>\<open>sscanf(request, "%15s %255s %15s", method, path, version)\<close> returning 3 (line 249).\<close>

definition sscanf3 :: "string \<Rightarrow> (string \<times> string \<times> string) option" where
  "sscanf3 request =
     (case scan_s 15 request of
        None \<Rightarrow> None
      | Some (method, r1) \<Rightarrow>
          (case scan_s 255 r1 of
             None \<Rightarrow> None
           | Some (path, r2) \<Rightarrow>
               (case scan_s 15 r2 of
                  None \<Rightarrow> None
                | Some (ver, r3) \<Rightarrow> Some (method, path, ver))))"

text \<open>The string \<^verbatim>\<open>page\<close> (lines 285-296).\<close>

definition page :: string where
  \<open>page =
     ''<!doctype html>'' @ LF @
     ''<meta charset="utf-8">'' @ LF @
     ''<title>Live MPU6050</title>'' @ LF @
     ''<pre id="out">connecting...</pre>'' @ LF @
     ''<p><a href="/json">View JSON data</a></p>'' @ LF @
     ''<script>'' @ LF @
     ''const out = document.getElementById('' @ [CHR 0x27] @ ''out'' @ [CHR 0x27] @ '');'' @ LF @
     ''const es = new EventSource('' @ [CHR 0x27] @ ''/events'' @ [CHR 0x27] @ '');'' @ LF @
     ''es.onmessage = (e) => { out.textContent = e.data; };'' @ LF @
     ''es.onerror = () => { out.textContent += "'' @ [CHR 0x5C] @ ''n[stream error]"; };'' @ LF @
     ''</script>'' @ LF\<close>

definition root_header :: "int \<Rightarrow> string" where
  "root_header body_len =
     ''HTTP/1.1 200 OK'' @ CRLF @
     ''Content-Type: text/html; charset=utf-8'' @ CRLF @
     ''Cache-Control: no-store'' @ CRLF @
     ''Content-Length: '' @ print_d body_len @ CRLF @
     ''Connection: close'' @ CRLF @ CRLF"

text \<open>
  The JSON object of lines 311-322, and of lines 407-420 with the same format. \<open>fmt\<close> is the
  conversion \<^verbatim>\<open>%.6f\<close> of \<^verbatim>\<open>printf\<close>, \<open>now\<close> the value of \<^verbatim>\<open>time(NULL)\<close>.
\<close>

definition json_text ::
  "(real \<Rightarrow> string) \<Rightarrow> mpu6050_sample_float_t \<Rightarrow> mpu6050_sample_float_t \<Rightarrow> int \<Rightarrow> string" where
  \<open>json_text fmt s a now =
     ''{"status":"ok",'' @
     ''"sample":{"ax":'' @ fmt (ax s) @ '',"ay":'' @ fmt (ay s) @ '',"az":'' @ fmt (az s) @
     '',"gx":'' @ fmt (gx s) @ '',"gy":'' @ fmt (gy s) @ '',"gz":'' @ fmt (gz s) @
     '',"temp":'' @ fmt (temp s) @ ''},'' @
     ''"average":{"ax":'' @ fmt (ax a) @ '',"ay":'' @ fmt (ay a) @ '',"az":'' @ fmt (az a) @
     '',"gx":'' @ fmt (gx a) @ '',"gy":'' @ fmt (gy a) @ '',"gz":'' @ fmt (gz a) @
     '',"temp":'' @ fmt (temp a) @ ''},'' @
     ''"timestamp":'' @ print_d now @ ''}''\<close>

definition json_header :: "int \<Rightarrow> string" where
  "json_header body_len =
     ''HTTP/1.1 200 OK'' @ CRLF @
     ''Content-Type: application/json'' @ CRLF @
     ''Content-Length: '' @ print_d body_len @ CRLF @
     ''Connection: close'' @ CRLF @ CRLF"

definition sse_header :: string where
  "sse_header =
     ''HTTP/1.1 200 OK'' @ CRLF @
     ''Content-Type: text/event-stream; charset=utf-8'' @ CRLF @
     ''Cache-Control: no-cache, no-transform'' @ CRLF @
     ''Connection: keep-alive'' @ CRLF @
     ''Access-Control-Allow-Origin: *'' @ CRLF @
     ''X-Accel-Buffering: no'' @ CRLF @ CRLF"

definition sse_retry :: string where
  "sse_retry = ''retry: 100'' @ LF @ LF"

definition notfound_body :: string where
  \<open>notfound_body =
     ''<!doctype html><meta charset="utf-8"><title>404 Not Found</title>'' @
     ''<h1>404 Not Found</h1>'' @
     ''<p>The requested path was not found.</p>'' @
     ''<p><a href="/">Go to home</a> | <a href="/json">View JSON</a> | <a href="/events">View Events</a></p>'' @ LF\<close>

definition notfound_header :: "int \<Rightarrow> string" where
  "notfound_header body_len =
     ''HTTP/1.1 404 Not Found'' @ CRLF @
     ''Content-Type: text/html; charset=utf-8'' @ CRLF @
     ''Content-Length: '' @ print_d body_len @ CRLF @
     ''Connection: close'' @ CRLF @ CRLF"

text \<open>Lines 495-502: the clamp of a length returned by \<^verbatim>\<open>snprintf\<close> to the buffer of size \<open>sz\<close>.\<close>

definition clamp_len :: "nat \<Rightarrow> int \<Rightarrow> int" where
  "clamp_len sz n = (if n < 0 then 0 else if n \<ge> int sz then int sz - 1 else n)"

text \<open>
  Lines 494-517. \<open>snd_ret\<close> gives the return value of \<^verbatim>\<open>send\<close> for the bytes handed to it. The
  arguments are the results of the two \<^verbatim>\<open>snprintf\<close> calls into \<^verbatim>\<open>header[256]\<close> and \<^verbatim>\<open>body[512]\<close>.
\<close>

definition send_response :: "(string \<Rightarrow> int) \<Rightarrow> string \<times> int \<Rightarrow> string \<times> int \<Rightarrow> event list" where
  "send_response snd_ret hdr bdy =
     (let body_len = clamp_len 512 (snd bdy);
          header_len = clamp_len 256 (snd hdr);
          header = take (nat header_len) (fst hdr);
          body = take (nat body_len) (fst bdy)
      in if header_len > 0 \<and> snd_ret header \<noteq> header_len then [Send header, Close]
         else (if header_len > 0 then [Send header] else []) @
              (if body_len > 0 then [Send body] else []) @ [Close])"

text \<open>
  What one pass of the loop \<^verbatim>\<open>while (running)\<close> of the \<^verbatim>\<open>/events\<close> branch meets (lines 386-467):
  \<^item> \<open>Stopped\<close>: \<^verbatim>\<open>running\<close> is 0 at the loop head;
  \<^item> \<open>EpollError eintr\<close>: \<^verbatim>\<open>epoll_wait\<close> returns a negative value, with \<^verbatim>\<open>errno == EINTR\<close> or not;
  \<^item> \<open>EpollTimeout c run ws now\<close>: \<^verbatim>\<open>epoll_wait\<close> returns 0; \<open>c\<close>, \<open>run\<close>, \<open>ws\<close> are the cache,
    \<^verbatim>\<open>running\<close> and the wake-ups that \<^verbatim>\<open>wait_for_new_data\<close> meets, \<open>now\<close> is \<^verbatim>\<open>time(NULL)\<close>;
  \<^item> \<open>EpollReady hup\<close>: \<^verbatim>\<open>epoll_wait\<close> returns a positive value; \<open>hup\<close> tells whether one of
    \<^verbatim>\<open>EPOLLRDHUP\<close>, \<^verbatim>\<open>EPOLLHUP\<close>, \<^verbatim>\<open>EPOLLERR\<close> is set. Draining the input (lines 441-466)
    changes nothing that the loop looks at.
\<close>

datatype sse_input =
  Stopped
| EpollError bool
| EpollTimeout cached_data_t bool "wake list" int
| EpollReady bool

text \<open>Lines 407-422: the frame \<^verbatim>\<open>"data: %.*s\n\n"\<close> built from \<^verbatim>\<open>json[1024]\<close> into \<^verbatim>\<open>event[1152]\<close>.\<close>

definition sse_frame ::
  "(real \<Rightarrow> string) \<Rightarrow> mpu6050_sample_float_t \<Rightarrow> mpu6050_sample_float_t \<Rightarrow> int \<Rightarrow> string" where
  "sse_frame fmt s a now =
     (let (json, jlen) = snprintf 1024 (json_text fmt s a now);
          (event, elen) = snprintf 1152 (''data: '' @ take (nat jlen) json @ LF @ LF)
      in take (nat elen) event)"

text \<open>
  The loop of lines 386-467, from a pass on. The result lists what was sent so far and tells
  whether the loop has ended; it has not when the listed passes are used up (the stream is
  still open) or when a call of \<^verbatim>\<open>wait_for_new_data\<close> has not returned.
\<close>

fun sse_loop ::
  "(real \<Rightarrow> string) \<Rightarrow> (string \<Rightarrow> int) \<Rightarrow> 64 word \<Rightarrow> sse_input list \<Rightarrow> event list \<times> bool" where
  "sse_loop fmt snd_ret last_version [] = ([], False)"
| "sse_loop fmt snd_ret last_version (Stopped # ins) = ([], True)"
| "sse_loop fmt snd_ret last_version (EpollError eintr # ins) =
     (if eintr then sse_loop fmt snd_ret last_version ins else ([], True))"
| "sse_loop fmt snd_ret last_version (EpollTimeout c run ws now # ins) =
     (case wait_for_new_data last_version c run ws of
        None \<Rightarrow> ([], False)
      | Some (new_version, local_sample, local_avg) \<Rightarrow>
          if new_version = last_version then sse_loop fmt snd_ret last_version ins
          else
            (let event = sse_frame fmt local_sample local_avg now in
             if snd_ret event \<le> 0 then ([Send event], True)
             else (let (evs, ended) = sse_loop fmt snd_ret new_version ins
                   in (Send event # evs, ended))))"
| "sse_loop fmt snd_ret last_version (EpollReady hup # ins) =
     (if hup then ([], True) else sse_loop fmt snd_ret last_version ins)"

text \<open>
  What a handler thread meets outside the cache: the conversion \<^verbatim>\<open>%.6f\<close>, the return values
  of \<^verbatim>\<open>send\<close>, \<^verbatim>\<open>time(NULL)\<close> at line 322, whether \<^verbatim>\<open>epoll_create1\<close> and \<^verbatim>\<open>epoll_ctl\<close> succeed, and
  the passes of the \<^verbatim>\<open>/events\<close> loop.
\<close>

record handler_env =
  fmt_f :: "real \<Rightarrow> string"
  send_ret :: "string \<Rightarrow> int"
  time_now :: int
  epoll_ok :: bool
  sse_inputs :: "sse_input list"

text \<open>
  Lines 332-475, the \<^verbatim>\<open>/events\<close> branch up to its \<^verbatim>\<open>goto out\<close>: what was done to the socket so
  far, and whether the branch has reached \<^verbatim>\<open>out\<close>.
\<close>

definition events_branch :: "handler_env \<Rightarrow> event list \<times> bool" where
  "events_branch env =
     (if send_ret env sse_header \<le> 0 then ([Send sse_header, Close], True)
      else if send_ret env sse_retry \<le> 0 then ([Send sse_header, Send sse_retry, Close], True)
      else if \<not> epoll_ok env then ([Send sse_header, Send sse_retry, Close], True)
      else
        (let (evs, ended) = sse_loop (fmt_f env) (send_ret env) 0 (sse_inputs env) in
         if ended then ([Send sse_header, Send sse_retry] @ evs @ [ShutdownRDWR, Close], True)
         else ([Send sse_header, Send sse_retry] @ evs, False)))"

text \<open>
  Lines 255-517, the handler once the request line is parsed: \<open>c\<close> is the cache at line 258
  and \<open>path\<close> the second string that \<^verbatim>\<open>sscanf\<close> stored. Neither \<^verbatim>\<open>method\<close> nor \<^verbatim>\<open>version\<close>
  is read anywhere in these lines. The two texts of lines 266-279 are never used and are left
  out.
\<close>

definition route :: "handler_env \<Rightarrow> cached_data_t \<Rightarrow> string \<Rightarrow> event list \<times> bool" where
  "route env c path =
     (let (local_sample, local_avg) = get_cached_data c in
      if path = ''/'' then
        (let bdy = snprintf 512 page;
             hdr = snprintf 256 (root_header (snd bdy))
         in (send_response (send_ret env) hdr bdy, True))
      else if path = ''/json'' then
        (let bdy = snprintf 512 (json_text (fmt_f env) local_sample local_avg (time_now env));
             hdr = snprintf 256 (json_header (snd bdy))
         in (send_response (send_ret env) hdr bdy, True))
      else if path = ''/events'' then events_branch env
      else
        (let bdy = snprintf 512 notfound_body;
             hdr = snprintf 256 (notfound_header (snd bdy))
         in (send_response (send_ret env) hdr bdy, True)))"

text \<open>
  Lines 233-517, the handler between \<^verbatim>\<open>pthread_cleanup_push\<close> and the label \<^verbatim>\<open>out\<close>. \<open>arg\<close> is
  \<open>None\<close> for a null pointer, otherwise the bytes that the peer has sent when \<^verbatim>\<open>recv\<close> is
  called (the empty list when \<^verbatim>\<open>recv\<close> returns 0 or -1); \<^verbatim>\<open>request[1024]\<close> is zero-filled and
  \<^verbatim>\<open>recv\<close> stores at most 1023 bytes.
\<close>

definition conn_body :: "handler_env \<Rightarrow> cached_data_t \<Rightarrow> string option \<Rightarrow> event list \<times> bool" where
  "conn_body env c arg =
     (case arg of
        None \<Rightarrow> ([], True)
      | Some bytes \<Rightarrow>
          (let request = take 1023 bytes in
           if int (length request) \<le> 0 then ([Close], True)
           else
             (case sscanf3 (c_str request) of
                None \<Rightarrow> ([Close], True)
              | Some (method, path, ver) \<Rightarrow> route env c path)))"

text \<open>
  \<^verbatim>\<open>conn_handler\<close> (lines 230-521): every way out of the body is a \<^verbatim>\<open>goto out\<close>, where
  \<^verbatim>\<open>pthread_cleanup_pop(1)\<close> runs \<^verbatim>\<open>conn_active_dec_cleanup\<close>. The result is what the thread
  has done so far and whether it has returned.
\<close>

definition conn_handler :: "handler_env \<Rightarrow> cached_data_t \<Rightarrow> string option \<Rightarrow> event list \<times> bool" where
  "conn_handler env c arg =
     (let (evs, ended) = conn_body env c arg
      in if ended then (evs @ [ActiveDec], True) else (evs, False))"

section \<open>Server: the threads that share the connection counter (unnamed/part_002:54-61, 662-712)\<close>

text \<open>
  The value of \<^verbatim>\<open>g_active_connections\<close> after a thread has done \<open>evs\<close>:
  \<^verbatim>\<open>conn_active_dec_cleanup\<close> (lines 56-61) is \<^verbatim>\<open>atomic_fetch_sub(&g_active_connections, 1)\<close>, and
  nothing else that a handler does touches the counter.
\<close>

fun counter_after :: "event list \<Rightarrow> int \<Rightarrow> int" where
  "counter_after [] g = g"
| "counter_after (ActiveDec # evs) g = counter_after evs (g - 1)"
| "counter_after (e # evs) g = counter_after evs g"

text \<open>
  The threads that touch \<^verbatim>\<open>g_active_connections\<close>, with every atomic access a step of its own.
  The acceptor is between accepts, or holds the value it loaded (line 678), or has added its
  reservation (line 700) and not yet returned from \<^verbatim>\<open>pthread_create\<close>. \<open>handlers\<close> counts the
  handler threads that have not returned yet, \<open>refused\<close> the connections closed without
  admission. The \<^verbatim>\<open>atomic_int\<close> and the \<^verbatim>\<open>int\<close> limit are integers: under a positive limit the
  counter stays between 0 and the limit, so no 32-bit operation overflows.
\<close>

datatype acceptor_pc = Waiting | Loaded int | Reserved

record conn_state =
  g_active_connections :: int
  acceptor :: acceptor_pc
  handlers :: nat
  refused :: nat

definition conn_init :: conn_state where
  "conn_init = \<lparr>g_active_connections = 0, acceptor = Waiting, handlers = 0, refused = 0\<rparr>"

datatype conn_action =
  Load | Decide | SpawnOk | SpawnFailed
| HandlerExit handler_env cached_data_t "string option"

text \<open>
  One atomic step of one thread; \<open>None\<close> when that thread is not at this step. \<open>Load\<close> is
  line 678, \<open>Decide\<close> lines 679-700, \<open>SpawnOk\<close> and \<open>SpawnFailed\<close> the two outcomes of
  \<^verbatim>\<open>pthread_create\<close> (lines 701-710). \<open>HandlerExit env c arg\<close> is the return of one of the
  live handler threads, which has run \<^verbatim>\<open>conn_handler\<close> in the environment \<open>env\<close> on the cache
  \<open>c\<close> with the argument \<open>arg\<close>: the counter is what the thread's actions leave of it. A
  handler changes the counter in its last action only, so its run is one step here.
\<close>

fun conn_step :: "server_config_t \<Rightarrow> conn_action \<Rightarrow> conn_state \<Rightarrow> conn_state option" where
  "conn_step cfg Load s =
     (case acceptor s of
        Waiting \<Rightarrow> Some (s\<lparr>acceptor := Loaded (g_active_connections s)\<rparr>)
      | _ \<Rightarrow> None)"
| "conn_step cfg Decide s =
     (case acceptor s of
        Loaded a \<Rightarrow>
          (case admission_check cfg a of
             Admit \<Rightarrow>
               Some (s\<lparr>g_active_connections := g_active_connections s + 1, acceptor := Reserved\<rparr>)
           | _ \<Rightarrow> Some (s\<lparr>acceptor := Waiting, refused := refused s + 1\<rparr>))
      | _ \<Rightarrow> None)"
| "conn_step cfg SpawnOk s =
     (case acceptor s of
        Reserved \<Rightarrow> Some (s\<lparr>acceptor := Waiting, handlers := handlers s + 1\<rparr>)
      | _ \<Rightarrow> None)"
| "conn_step cfg SpawnFailed s =
     (case acceptor s of
        Reserved \<Rightarrow>
          Some (s\<lparr>g_active_connections := g_active_connections s - 1, acceptor := Waiting\<rparr>)
      | _ \<Rightarrow> None)"
| "conn_step cfg (HandlerExit env c arg) s =
     (let (evs, ended) = conn_handler env c arg in
      if handlers s > 0 \<and> ended then
        Some (s\<lparr>g_active_connections := counter_after evs (g_active_connections s),
               handlers := handlers s - 1\<rparr>)
      else None)"

text \<open>A schedule of steps, run from a state; \<open>None\<close> when some step is not enabled.\<close>

fun conn_run :: "server_config_t \<Rightarrow> conn_action list \<Rightarrow> conn_state \<Rightarrow> conn_state option" where
  "conn_run cfg [] s = Some s"
| "conn_run cfg (a # as) s =
     (case conn_step cfg a s of None \<Rightarrow> None | Some s' \<Rightarrow> conn_run cfg as s')"

section \<open>Producer: start-up and shutdown (producer.c:11-62, 175-181; start.sh:8-24)\<close>

text \<open>\<^verbatim>\<open>SHM_NAME\<close> and \<^verbatim>\<open>SEM_NAME\<close> (producer.h).\<close>

definition SHM_NAME :: string where
  "SHM_NAME = ''/data_buffer''"

definition SEM_NAME :: string where
  "SEM_NAME = ''/data_sem''"

text \<open>
  The named POSIX objects of the system: each shared-memory object with its contents, each
  named semaphore with its value. A name stays until it is unlinked.
\<close>

record os_objects =
  shm_objects :: "string \<rightharpoonup> shared_data_t"
  sem_objects :: "string \<rightharpoonup> nat"

text \<open>What a process holds: the descriptor, the mapping and the semaphore handle.\<close>

record handles =
  shm_fd_open :: bool
  mapped :: bool
  sem_open :: bool

datatype startup_failure = ShmOpenFails | FtruncateFails | MmapFails | SemOpenFails

text \<open>
  One pass of the producer's loop (lines 64-173): \<open>None\<close> for a pass that ends in one of the
  \<^verbatim>\<open>continue\<close> statements (the device could not be opened or its record did not parse),
  otherwise the sample parsed, which is written under the semaphore.
\<close>

fun producer_cycles :: "mpu6050_sample_float_t option list \<Rightarrow> shared_data_t \<Rightarrow> shared_data_t" where
  "producer_cycles [] sd = sd"
| "producer_cycles (None # cs) sd = producer_cycles cs sd"
| "producer_cycles (Some sample # cs) sd = producer_cycles cs (producer_write sample sd)"

text \<open>Whether some pass of the loop reached the critical section of lines 133-165.\<close>

fun wrote :: "mpu6050_sample_float_t option list \<Rightarrow> bool" where
  "wrote [] = False"
| "wrote (None # cs) = wrote cs"
| "wrote (Some sample # cs) = True"

text \<open>
  The value of the semaphore when the producer, running alone, leaves its loop. A critical
  section takes the semaphore with \<^verbatim>\<open>sem_wait\<close> and gives it back with \<^verbatim>\<open>sem_post\<close>, which
  restores a positive value. On a semaphore found at 0 the \<^verbatim>\<open>sem_wait\<close> of line 133 blocks
  until the signal interrupts it; its result is not looked at, the write is made, and
  \<^verbatim>\<open>sem_post\<close> leaves the value 1.
\<close>

definition sem_after :: "mpu6050_sample_float_t option list \<Rightarrow> nat \<Rightarrow> nat" where
  "sem_after cycles v = (if v = 0 \<and> wrote cycles then 1 else v)"

text \<open>
  \<^verbatim>\<open>main\<close> of the producer. \<open>failure\<close> names the start-up call that fails, if any; \<open>cycles\<close> are
  the passes of the loop made before a signal clears \<^verbatim>\<open>running\<close>. The result is the exit
  code, the named objects and the handles at exit. \<^verbatim>\<open>shm_open\<close> and \<^verbatim>\<open>sem_open\<close> with
  \<^verbatim>\<open>O_CREAT\<close> create the name when it is absent (the semaphore with value 1) and open the
  existing object otherwise; the shutdown of lines 177-179 calls \<^verbatim>\<open>sem_close\<close>, \<^verbatim>\<open>munmap\<close>
  and \<^verbatim>\<open>close\<close>.
\<close>

definition producer_main ::
  "startup_failure option \<Rightarrow> mpu6050_sample_float_t option list \<Rightarrow> os_objects \<Rightarrow>
   int \<times> os_objects \<times> handles" where
  "producer_main failure cycles os =
     (let none = \<lparr>shm_fd_open = False, mapped = False, sem_open = False\<rparr> in
      if failure = Some ShmOpenFails then (1, os, none)
      else
        (let seg = (case shm_objects os SHM_NAME of None \<Rightarrow> zero_shared | Some sd \<Rightarrow> sd);
             os1 = os\<lparr>shm_objects := (shm_objects os)(SHM_NAME \<mapsto> seg)\<rparr>
         in if failure = Some FtruncateFails then (1, os1, none)
            else if failure = Some MmapFails then (1, os1, none)
            else
              (let os2 = os1\<lparr>shm_objects := (shm_objects os1)(SHM_NAME \<mapsto> zero_shared)\<rparr>
               in if failure = Some SemOpenFails then (1, os2, none)
                  else
                    (let os3 = os2\<lparr>sem_objects :=
                                 (sem_objects os2)(SEM_NAME \<mapsto>
                                    sem_after cycles
                                      (case sem_objects os2 SEM_NAME of None \<Rightarrow> 1 | Some v \<Rightarrow> v))\<rparr>;
                         os4 = os3\<lparr>shm_objects :=
                                 (shm_objects os3)(SHM_NAME \<mapsto> producer_cycles cycles zero_shared)\<rparr>
                     in (0, os4, none)))))"

text \<open>
  \<^verbatim>\<open>cleanup\<close> of start.sh, lines 19-22: \<^verbatim>\<open>rm -f /dev/shm/data_buffer /dev/shm/sem.data_sem\<close>,
  the files that stand for the two names.
\<close>

definition start_sh_cleanup :: "os_objects \<Rightarrow> os_objects" where
  "start_sh_cleanup os =
     os\<lparr>shm_objects := (shm_objects os)(SHM_NAME := None),
        sem_objects := (sem_objects os)(SEM_NAME := None)\<rparr>"

section \<open>Specification-side notions\<close>

text \<open>
  The valid entries of the ring, oldest first: the \<open>count\<close> slots that end just before the
  write cursor, taken cyclically.
\<close>

definition valid_entries :: "shared_data_t \<Rightarrow> mpu6050_sample_float_t list" where
  "valid_entries sd =
     map (\<lambda>k. buffer sd ! ((write_index sd + BUFFER_SIZE - count sd + k) mod BUFFER_SIZE))
       [0..<count sd]"

text \<open>
  The state of the segment after the samples \<open>ss\<close> were written, in this order, into the
  zeroed segment: the invariant of the producer's loop.
\<close>

definition ring_inv :: "mpu6050_sample_float_t list \<Rightarrow> shared_data_t \<Rightarrow> bool" where
  "ring_inv ss sd \<longleftrightarrow>
     length (buffer sd) = BUFFER_SIZE \<and>
     count sd = min (length ss) BUFFER_SIZE \<and>
     write_index sd = length ss mod BUFFER_SIZE \<and>
     (\<forall>k < length ss. length ss \<le> k + BUFFER_SIZE \<longrightarrow> buffer sd ! (k mod BUFFER_SIZE) = ss ! k)"

text \<open>
  The cache after the reader thread stored the pairs \<open>pubs\<close>, in this order, starting from the
  static initialiser; and the pair that a reader of that cache is to see.
\<close>

definition published_state ::
  "(mpu6050_sample_float_t \<times> mpu6050_sample_float_t) list \<Rightarrow> cached_data_t" where
  "published_state pubs = publish_all pubs g_cached_data"

definition pair_at ::
  "(mpu6050_sample_float_t \<times> mpu6050_sample_float_t) list \<Rightarrow>
   mpu6050_sample_float_t \<times> mpu6050_sample_float_t" where
  "pair_at pubs = (if pubs = [] then (zero_sample, zero_sample) else last pubs)"

text \<open>
  The invariant of the connection counter for a limit \<open>K\<close>: the counter is the number of handler
  threads that have not returned, plus the acceptor's reservation; it is at most \<open>K\<close>; and a
  value that the acceptor has loaded is not below the counter.
\<close>

definition conn_inv :: "int \<Rightarrow> conn_state \<Rightarrow> bool" where
  "conn_inv K s \<longleftrightarrow>
     g_active_connections s = int (handlers s) + (if acceptor s = Reserved then 1 else 0) \<and>
     g_active_connections s \<le> K \<and>
     (\<forall>a. acceptor s = Loaded a \<longrightarrow> g_active_connections s \<le> a)"

section \<open>Concrete inputs\<close>

text \<open>A system without named objects, and the server's globals under the default configuration.\<close>

definition no_objects :: os_objects where
  "no_objects = \<lparr>shm_objects = Map.empty, sem_objects = Map.empty\<rparr>"



text \<open>Two limits for \<^verbatim>\<open>max_connections\<close>.\<close>

definition cfg_limit2 :: server_config_t where
  "cfg_limit2 = \<lparr>max_connnections = 2, backlog = 5, port = 3737\<rparr>"

definition cfg_limit0 :: server_config_t where
  "cfg_limit0 = \<lparr>max_connnections = 0, backlog = 5, port = 3737\<rparr>"

text \<open>A server under the limit 2 with two live handlers, after one refusal.\<close>

definition full_at2 :: conn_state where
  "full_at2 = \<lparr>g_active_connections = 2, acceptor = Waiting, handlers = 2, refused = 1\<rparr>"

text \<open>
  A handler environment: every number prints as \<^verbatim>\<open>0.000000\<close>, every \<^verbatim>\<open>send\<close> takes all bytes,
  and the \<^verbatim>\<open>/events\<close> loop has made no pass yet.
\<close>

definition env0 :: handler_env where
  "env0 =
     \<lparr>fmt_f = (\<lambda>x. ''0.000000''), send_ret = (\<lambda>s. int (length s)), time_now = 1762128000,
      epoll_ok = True, sse_inputs = []\<rparr>"

text \<open>
  Requests. The first token of \<open>long_method_request\<close> has 20 characters; its second token is
  \<^verbatim>\<open>/nothing\<close>, as in \<open>nothing_request\<close>.
\<close>

definition get_json_request :: string where
  "get_json_request = ''GET /json HTTP/1.1'' @ CRLF @ CRLF"

definition nothing_request :: string where
  "nothing_request = ''GET /nothing HTTP/1.1'' @ CRLF @ CRLF"

definition long_method_request :: string where
  "long_method_request = ''XXXXXXXXXXXXXXX/json /nothing HTTP/1.1'' @ CRLF @ CRLF"

definition events_request :: string where
  "events_request = ''GET /events HTTP/1.1'' @ CRLF @ CRLF"

definition post_json_request :: string where
  "post_json_request = ''POST /json HTTP/1.1'' @ CRLF @ CRLF"

definition delete_json_request :: string where
  "delete_json_request = ''DELETE /json HTTP/1.1'' @ CRLF @ CRLF"

text \<open>A request whose second token has 301 characters.\<close>

definition long_path :: string where
  "long_path = CHR ''/'' # replicate 300 (CHR ''a'')"

definition long_path_request :: string where
  "long_path_request = ''GET '' @ long_path @ '' HTTP/1.1'' @ CRLF @ CRLF"

section \<open>Verification: the producer's ring buffer\<close>

lemma BUFFER_SIZE_pos: "0 < BUFFER_SIZE" by (simp add: BUFFER_SIZE_def)

lemma mod_slot_distinct:
  fixes k n c :: nat
  assumes "k < n" "n < k + c"
  shows "k mod c \<noteq> n mod c"
proof
  assume "k mod c = n mod c"
  then have "c dvd (n - k)" using assms(1)
    by (metis less_imp_le_nat mod_eq_dvd_iff_nat)
  moreover have "0 < n - k" "n - k < c" using assms by auto
  ultimately show False by (auto dest: dvd_imp_le)
qed

lemma ring_inv_zero: "ring_inv [] zero_shared"
  by (simp add: ring_inv_def zero_shared_def)

lemma ring_inv_store:
  assumes "ring_inv ss sd"
  shows "ring_inv (ss @ [s]) (ring_store s sd)"
proof -
  let ?C = BUFFER_SIZE and ?N = "length ss"
  from assms have len: "length (buffer sd) = ?C"
    and cnt: "count sd = min ?N ?C"
    and wi: "write_index sd = ?N mod ?C"
    and slots: "\<And>k. k < ?N \<Longrightarrow> ?N \<le> k + ?C \<Longrightarrow> buffer sd ! (k mod ?C) = ss ! k"
    by (auto simp: ring_inv_def)
  have lt: "?N mod ?C < length (buffer sd)" using len BUFFER_SIZE_pos by simp
  have "buffer (ring_store s sd) ! (k mod ?C) = (ss @ [s]) ! k"
    if "k < Suc ?N" "Suc ?N \<le> k + ?C" for k
  proof (cases "k = ?N")
    case True
    then show ?thesis using lt by (simp add: ring_store_def wi)
  next
    case False
    with that have "k < ?N" "?N < k + ?C" by auto
    then have "k mod ?C \<noteq> ?N mod ?C" by (rule mod_slot_distinct)
    then show ?thesis using \<open>k < ?N\<close> \<open>?N < k + ?C\<close> slots [of k]
      by (simp add: ring_store_def wi nth_append)
  qed
  moreover have "count (ring_store s sd) = min (Suc ?N) ?C"
    by (auto simp: ring_store_def cnt)
  moreover have "write_index (ring_store s sd) = Suc ?N mod ?C"
    by (simp add: ring_store_def wi mod_Suc_eq)
  ultimately show ?thesis by (simp add: ring_inv_def ring_store_def len)
qed

lemma ring_inv_write:
  "ring_inv ss sd \<Longrightarrow> ring_inv (ss @ [s]) (producer_write s sd)"
  using ring_inv_store [of ss sd s] by (simp add: producer_write_def Let_def ring_inv_def)

lemma ring_inv_writes:
  "ring_inv ss sd \<Longrightarrow> ring_inv (ss @ ts) (producer_writes ts sd)"
proof (induction ts arbitrary: ss sd)
  case Nil
  then show ?case by simp
next
  case (Cons t ts)
  from Cons.IH [OF ring_inv_write [OF Cons.prems, of t]] show ?case by simp
qed

lemma ring_inv_valid_entries:
  assumes "ring_inv ss sd"
  shows "valid_entries sd = drop (length ss - BUFFER_SIZE) ss"
proof (rule nth_equalityI)
  let ?C = BUFFER_SIZE and ?N = "length ss"
  from assms have cnt: "count sd = min ?N ?C"
    and wi: "write_index sd = ?N mod ?C"
    and slots: "\<And>k. k < ?N \<Longrightarrow> ?N \<le> k + ?C \<Longrightarrow> buffer sd ! (k mod ?C) = ss ! k"
    by (auto simp: ring_inv_def)
  show "length (valid_entries sd) = length (drop (?N - ?C) ss)"
    by (auto simp: valid_entries_def cnt)
  fix k assume "k < length (valid_entries sd)"
  then have k: "k < min ?N ?C" by (simp add: valid_entries_def cnt)
  define j where "j = ?N - min ?N ?C + k"
  define d where "d = ?C - min ?N ?C + k"
  have j: "j < ?N" "?N \<le> j + ?C" unfolding j_def using k by auto
  have "write_index sd + ?C - count sd + k = ?N mod ?C + d"
    unfolding wi cnt d_def by linarith
  moreover have "(?N mod ?C + d) mod ?C = (?N + d) mod ?C" by (rule mod_add_left_eq)
  moreover have "?N + d = j + ?C" unfolding d_def j_def using k by linarith
  moreover have "(j + ?C) mod ?C = j mod ?C" by simp
  ultimately have "(write_index sd + ?C - count sd + k) mod ?C = j mod ?C" by presburger
  then have "valid_entries sd ! k = buffer sd ! (j mod ?C)"
    using k by (simp add: valid_entries_def cnt)
  also have "\<dots> = ss ! j" using slots [OF j] .
  also have "\<dots> = drop (?N - ?C) ss ! k" unfolding j_def using k by (auto simp: min_def)
  finally show "valid_entries sd ! k = drop (?N - ?C) ss ! k" .
qed

lemma producer_writes_append:
  "producer_writes (ss @ ts) sd = producer_writes ts (producer_writes ss sd)"
  by (induction ss arbitrary: sd) simp_all

lemma ring_inv_reached: "ring_inv ss (producer_writes ss zero_shared)"
  using ring_inv_writes [OF ring_inv_zero, of ss] by simp

lemma reachable_bounds:
  "count (producer_writes ss zero_shared) \<le> BUFFER_SIZE \<and>
   write_index (producer_writes ss zero_shared) < BUFFER_SIZE \<and>
   length (buffer (producer_writes ss zero_shared)) = BUFFER_SIZE"
  using ring_inv_reached [of ss] BUFFER_SIZE_pos by (simp add: ring_inv_def)

text \<open>
  Claim C1. After the samples \<open>ss\<close> (N of them) were written into the zeroed segment, the
  count is \<open>min N BUFFER_SIZE\<close> and the valid entries, oldest first, are the last
  \<open>min N BUFFER_SIZE\<close> samples of \<open>ss\<close> in arrival order. When exactly \<open>BUFFER_SIZE\<close> samples
  filled the ring, one more write drops the first of them and appends the new sample.
\<close>

theorem ring_buffer_holds_most_recent:
  "count (producer_writes ss zero_shared) = min (length ss) BUFFER_SIZE \<and>
   valid_entries (producer_writes ss zero_shared) =
     drop (length ss - min (length ss) BUFFER_SIZE) ss \<and>
   (length ss = BUFFER_SIZE \<longrightarrow>
      valid_entries (producer_write s (producer_writes ss zero_shared)) = tl ss @ [s])"
proof -
  have inv: "ring_inv ss (producer_writes ss zero_shared)" by (rule ring_inv_reached)
  have "length ss - min (length ss) BUFFER_SIZE = length ss - BUFFER_SIZE" by auto
  then have first: "count (producer_writes ss zero_shared) = min (length ss) BUFFER_SIZE"
    and second: "valid_entries (producer_writes ss zero_shared) =
      drop (length ss - min (length ss) BUFFER_SIZE) ss"
    using inv ring_inv_valid_entries [OF inv] by (simp_all add: ring_inv_def)
  have "valid_entries (producer_write s (producer_writes ss zero_shared)) = tl ss @ [s]"
    if full: "length ss = BUFFER_SIZE"
  proof -
    have "ss \<noteq> []" using full BUFFER_SIZE_pos by auto
    have "valid_entries (producer_write s (producer_writes ss zero_shared)) =
          drop (length (ss @ [s]) - BUFFER_SIZE) (ss @ [s])"
      using ring_inv_valid_entries [OF ring_inv_write [OF inv, of s]] .
    also have "\<dots> = drop 1 (ss @ [s])" using full by simp
    also have "\<dots> = tl ss @ [s]" using \<open>ss \<noteq> []\<close> by (cases ss) simp_all
    finally show ?thesis .
  qed
  with first second show ?thesis by blast
qed

theorem ring_buffer_holds_most_recent_witness:
  "length (map (\<lambda>i. zero_sample\<lparr>ax := real i\<rparr>) [1..<17]) = BUFFER_SIZE \<and>
   valid_entries (producer_write (zero_sample\<lparr>ax := 17\<rparr>)
       (producer_writes (map (\<lambda>i. zero_sample\<lparr>ax := real i\<rparr>) [1..<17]) zero_shared)) =
     tl (map (\<lambda>i. zero_sample\<lparr>ax := real i\<rparr>) [1..<17]) @ [zero_sample\<lparr>ax := 17\<rparr>]"
proof -
  have len: "length (map (\<lambda>i. zero_sample\<lparr>ax := real i\<rparr>) [1..<17]) = BUFFER_SIZE"
    by (simp add: BUFFER_SIZE_def)
  with ring_buffer_holds_most_recent
      [of "map (\<lambda>i. zero_sample\<lparr>ax := real i\<rparr>) [1..<17]" "zero_sample\<lparr>ax := 17\<rparr>"]
  show ?thesis by blast
qed

section \<open>Verification: the reader thread and the cache\<close>

lemma producer_write_first:
  "producer_write s zero_shared =
     zero_shared\<lparr>buffer := (replicate BUFFER_SIZE zero_sample)[0 := s],
                 shared_data_t.average := acc_div (acc_add zero_sample s) 1,
                 count := 1, write_index := 1\<rparr>"
  by (simp add: producer_write_def ring_store_def compute_average_def zero_shared_def
      BUFFER_SIZE_def Let_def sum_loop.simps)

text \<open>
  Claim C3. The claim has the reader thread publish the average that the producer stored in
  the segment. Evaluated on the segment after the producer's first write of a sample with
  \<open>ax = 1\<close>: the shared average has \<open>ax = 1\<close>, and the reader publishes the zero sample, the
  contents of the last ring slot, as the cache's average.
\<close>

theorem reader_publishes_last_slot_as_average:
  "cached_data_t.average
     (data_reader_iteration (Some (producer_write (zero_sample\<lparr>ax := 1\<rparr>) zero_shared)) zero_sample True
        g_cached_data) = zero_sample \<and>
   shared_data_t.average (producer_write (zero_sample\<lparr>ax := 1\<rparr>) zero_shared) =
     zero_sample\<lparr>ax := 1\<rparr>"
  unfolding producer_write_first
  by (simp add: data_reader_iteration_def cache_publish_def
      BUFFER_SIZE_def acc_div_def acc_add_def zero_sample_def zero_shared_def)

lemma publish_all_append:
  "publish_all (ps @ qs) c = publish_all qs (publish_all ps c)"
  by (induction ps arbitrary: c) auto

lemma version_publish_all:
  "version (publish_all ps c) = version c + of_nat (length ps)"
  by (induction ps arbitrary: c) (auto simp: cache_publish_def)

lemma pair_publish_all:
  "ps \<noteq> [] \<Longrightarrow> get_cached_data (publish_all ps c) = last ps"
proof (induction ps arbitrary: c)
  case Nil
  then show ?case by simp
next
  case (Cons p ps)
  show ?case
  proof (cases "ps = []")
    case True
    then show ?thesis by (cases p) (simp add: get_cached_data_def cache_publish_def)
  next
    case False
    then show ?thesis using Cons.IH [OF False] by (cases p) simp
  qed
qed

lemma get_cached_data_published: "get_cached_data (published_state H) = pair_at H"
proof (cases "H = []")
  case True
  then show ?thesis
    by (simp add: published_state_def pair_at_def get_cached_data_def g_cached_data_def)
next
  case False
  then show ?thesis by (simp add: published_state_def pair_at_def pair_publish_all)
qed

lemma version_published: "version (published_state H) = of_nat (length H)"
  by (simp add: published_state_def version_publish_all g_cached_data_def)

lemma wait_loop_exit:
  "\<not> (version c = lv \<and> run) \<Longrightarrow> wait_loop lv c run ws = Some c"
  by (subst wait_loop.simps) auto

lemma wait_loop_nil:
  "version c = lv \<Longrightarrow> run \<Longrightarrow> wait_loop lv c run [] = None"
  by (subst wait_loop.simps) simp

lemma wait_loop_timeout:
  "version c = lv \<Longrightarrow> run \<Longrightarrow> timed_out w \<Longrightarrow>
   wait_loop lv c run (w # ws) = Some (publish_all (published w) c)"
  by (subst wait_loop.simps) simp

lemma wait_loop_again:
  "version c = lv \<Longrightarrow> run \<Longrightarrow> \<not> timed_out w \<Longrightarrow>
   wait_loop lv c run (w # ws) = wait_loop lv (publish_all (published w) c) (running_after w) ws"
  by (subst wait_loop.simps) (simp add: Let_def)

lemma wait_loop_result:
  "wait_loop lv c run ws = Some c' \<Longrightarrow>
   \<exists>k \<le> length (concat (map published ws)). c' = publish_all (take k (concat (map published ws))) c"
proof (induction lv c run ws rule: wait_loop.induct)
  case (1 lv c run ws)
  show ?case
  proof (cases "version c = lv \<and> run")
    case False
    with "1.prems" have "c' = c" by (simp add: wait_loop_exit)
    then show ?thesis by (intro exI [of _ 0]) simp
  next
    case True
    show ?thesis
    proof (cases ws)
      case Nil
      with True "1.prems" show ?thesis by (simp add: wait_loop_nil)
    next
      case (Cons w ws')
      let ?c1 = "publish_all (published w) c"
      show ?thesis
      proof (cases "timed_out w")
        case t: True
        with True Cons "1.prems" have "c' = ?c1" by (simp add: wait_loop_timeout)
        then show ?thesis using Cons
          by (intro exI [of _ "length (published w)"]) simp
      next
        case f: False
        with True Cons "1.prems" have "wait_loop lv ?c1 (running_after w) ws' = Some c'"
          by (simp add: wait_loop_again)
        from "1.IH" [OF True Cons refl f this]
        obtain k where k: "k \<le> length (concat (map published ws'))"
          and c': "c' = publish_all (take k (concat (map published ws'))) ?c1" by blast
        show ?thesis using k c' Cons
          by (intro exI [of _ "length (published w) + k"]) (simp add: publish_all_append)
      qed
    qed
  qed
qed

lemma wait_loop_returns:
  "\<exists>w \<in> set ws. timed_out w \<Longrightarrow> \<exists>c'. wait_loop lv c run ws = Some c'"
proof (induction lv c run ws rule: wait_loop.induct)
  case (1 lv c run ws)
  show ?case
  proof (cases "version c = lv \<and> run")
    case False
    then show ?thesis by (simp add: wait_loop_exit)
  next
    case True
    from "1.prems" obtain w ws' where ws: "ws = w # ws'" by (cases ws) auto
    show ?thesis
    proof (cases "timed_out w")
      case t: True
      with True ws show ?thesis by (simp add: wait_loop_timeout)
    next
      case f: False
      with "1.prems" ws have "\<exists>w \<in> set ws'. timed_out w" by auto
      from "1.IH" [OF True ws refl f this] True ws f show ?thesis
        by (simp add: wait_loop_again)
    qed
  qed
qed

lemma unat_version_bound:
  "n < 2 ^ 64 \<Longrightarrow> unat (of_nat n :: 64 word) = n"
  by (simp add: unat_of_nat)

lemma published_state_append:
  "published_state (H @ ps) = publish_all ps (published_state H)"
  by (simp add: published_state_def publish_all_append)

lemma wait_for_new_data_observes:
  assumes ret: "wait_for_new_data lv (published_state H) run ws = Some (v, s, a)"
    and seen: "lv \<le> version (published_state H)"
    and room: "length H + length (concat (map published ws)) < 2 ^ 64"
  shows "\<exists>k \<le> length (concat (map published ws)).
           v = of_nat (length H + k) \<and>
           (s, a) = pair_at (H @ take k (concat (map published ws))) \<and>
           ((v = lv \<and> k = 0) \<or> lv < v)"
proof -
  let ?P = "concat (map published ws)"
  from ret obtain c' where loop: "wait_loop lv (published_state H) run ws = Some c'"
    and v: "v = version c'" and sa: "(s, a) = get_cached_data c'"
    by (auto simp: wait_for_new_data_def get_cached_data_def split: option.splits)
  from wait_loop_result [OF loop] obtain k where k: "k \<le> length ?P"
    and c': "c' = publish_all (take k ?P) (published_state H)" by blast
  have c'': "c' = published_state (H @ take k ?P)" by (simp add: c' published_state_append)
  have vk: "v = of_nat (length H + k)" using k by (simp add: v c'' version_published)
  have pair: "(s, a) = pair_at (H @ take k ?P)" by (simp add: sa c'' get_cached_data_published)
  have uH: "unat (of_nat (length H) :: 64 word) = length H"
    using room by (intro unat_version_bound) simp
  have uv: "unat v = length H + k"
    unfolding vk using room k by (intro unat_version_bound) simp
  have le: "unat lv \<le> length H"
    using seen uH by (simp add: version_published word_le_nat_alt)
  have "(v = lv \<and> k = 0) \<or> lv < v"
  proof (cases "v = lv")
    case True
    with uv le have "k = 0" by simp
    with True show ?thesis by simp
  next
    case False
    have "unat lv \<le> unat v" using uv le by simp
    moreover have "unat lv \<noteq> unat v" using False by (simp add: word_unat_eq_iff)
    ultimately have "lv < v" by (simp add: word_less_nat_alt)
    then show ?thesis by simp
  qed
  with k vk pair show ?thesis by blast
qed

lemma version_strictly_increases:
  assumes "length H + 1 < 2 ^ 64"
  shows "version (published_state H) < version (published_state (H @ [p]))"
proof -
  have "unat (of_nat (length H) :: 64 word) = length H"
    using assms by (intro unat_version_bound) simp
  moreover have "unat (of_nat (length H + 1) :: 64 word) = length H + 1"
    using assms by (intro unat_version_bound) simp
  ultimately show ?thesis by (simp add: version_published word_less_nat_alt)
qed

lemma wait_loop_unchanged:
  "wait_loop lv c run ws = Some c' \<Longrightarrow> version c' = lv \<Longrightarrow>
   \<not> run \<or> (\<exists>w \<in> set ws. timed_out w \<or> \<not> running_after w)"
proof (induction lv c run ws rule: wait_loop.induct)
  case (1 lv c run ws)
  show ?case
  proof (cases "version c = lv \<and> run")
    case False
    with "1.prems" have "c' = c" by (simp add: wait_loop_exit)
    with False "1.prems"(2) show ?thesis by simp
  next
    case True
    show ?thesis
    proof (cases ws)
      case Nil
      with True "1.prems" show ?thesis by (simp add: wait_loop_nil)
    next
      case (Cons w ws')
      show ?thesis
      proof (cases "timed_out w")
        case t: True
        with Cons show ?thesis by simp
      next
        case f: False
        with True Cons "1.prems"
        have "wait_loop lv (publish_all (published w) c) (running_after w) ws' = Some c'"
          by (simp add: wait_loop_again)
        from "1.IH" [OF True Cons refl f this "1.prems"(2)] Cons show ?thesis by auto
      qed
    qed
  qed
qed

lemma wait_unchanged_needs_timeout:
  assumes "wait_for_new_data lv c run ws = Some (lv, s, a)"
  shows "\<not> run \<or> (\<exists>w \<in> set ws. timed_out w \<or> \<not> running_after w)"
proof -
  from assms obtain c' where "wait_loop lv c run ws = Some c'" "version c' = lv"
    by (auto simp: wait_for_new_data_def split: option.splits)
  then show ?thesis by (rule wait_loop_unchanged)
qed

lemma wait_timeout_old_data:
  assumes "version (published_state H) = lv" "run"
  shows "wait_for_new_data lv (published_state H) run (Wake [] True r # ws) =
         Some (lv, fst (pair_at H), snd (pair_at H))"
proof -
  have "wait_loop lv (published_state H) run (Wake [] True r # ws) = Some (published_state H)"
    using assms by (simp add: wait_loop_timeout)
  moreover have "(cached_data_t.current_sample (published_state H),
                  cached_data_t.average (published_state H)) = pair_at H"
    using get_cached_data_published [of H] by (simp add: get_cached_data_def)
  ultimately show ?thesis using assms(1)
    by (cases "pair_at H") (simp add: wait_for_new_data_def)
qed

lemma wait_spurious_wake:
  assumes "version c = lv" "run"
  shows "wait_for_new_data lv c run (Wake [] False True # ws) = wait_for_new_data lv c True ws"
  using assms by (simp add: wait_for_new_data_def wait_loop_again)

lemma wait_new_data:
  assumes at: "version (published_state H) = lv" "run"
    and ps: "ps \<noteq> []" and room: "length H + length ps < 2 ^ 64"
  shows "wait_for_new_data lv (published_state H) run (Wake ps t r # ws) =
           Some (of_nat (length H + length ps), fst (last ps), snd (last ps)) \<and>
         lv < of_nat (length H + length ps)"
proof -
  let ?c1 = "publish_all ps (published_state H)"
  have c1: "?c1 = published_state (H @ ps)" by (simp add: published_state_append)
  have v1: "version ?c1 = of_nat (length H + length ps)" by (simp add: c1 version_published)
  have uH: "unat lv = length H"
    using room at(1) [symmetric] by (simp add: version_published unat_version_bound)
  have u1: "unat (of_nat (length H + length ps) :: 64 word) = length H + length ps"
    using room by (intro unat_version_bound)
  have "0 < length ps" using ps by simp
  with uH u1 have lt: "lv < of_nat (length H + length ps)" by (simp add: word_less_nat_alt)
  then have ne: "version ?c1 \<noteq> lv" using v1 by auto
  have "wait_loop lv (published_state H) run (Wake ps t r # ws) = Some ?c1"
  proof (cases t)
    case True
    with at show ?thesis by (simp add: wait_loop_timeout)
  next
    case False
    with at have "wait_loop lv (published_state H) run (Wake ps t r # ws) = wait_loop lv ?c1 r ws"
      by (simp add: wait_loop_again)
    also have "\<dots> = Some ?c1" using ne by (simp add: wait_loop_exit)
    finally show ?thesis .
  qed
  moreover have "(cached_data_t.current_sample ?c1, cached_data_t.average ?c1) = last ps"
    using pair_publish_all [OF ps, of "published_state H"] by (simp add: get_cached_data_def)
  ultimately show ?thesis using v1 lt
    by (cases "last ps") (simp add: wait_for_new_data_def)
qed

text \<open>
  Claim C4. Let the cache hold the publications \<open>H\<close> made since the start of the server, and
  let the publications counted stay below \<open>2^64\<close> (the reader thread makes one in 100 ms). One
  more publication makes the version strictly larger, and \<^verbatim>\<open>get_cached_data\<close> returns the pair
  of the last publication. \<^verbatim>\<open>wait_for_new_data\<close> returns once one of its waits times out. When
  it is called with a version \<open>lv\<close> seen earlier (not ahead of the cache) and returns
  \<open>(v, s, a)\<close>, then \<open>v\<close> counts the publications made up to some moment of the wait and
  \<open>(s, a)\<close> is the pair of the last of them; and either \<open>v = lv\<close> and nothing was published in
  between (the old data), or \<open>lv < v\<close>. It returns the unchanged \<open>lv\<close> only when a wait has
  timed out or \<^verbatim>\<open>running\<close> was cleared. Called at the cache's version while the server runs:
  a wait that times out with nothing published returns \<open>lv\<close> with the old pair; a wake-up
  with nothing published, no time-out and the server running leaves it waiting; a wait during
  which pairs were published returns the larger version with the last pair. A pass of the
  reader thread with the segment attached is one such publication.
\<close>

theorem cache_version_and_pairs:
  "(length H + 1 < 2 ^ 64 \<longrightarrow>
      version (published_state H) < version (published_state (H @ [p]))) \<and>
   get_cached_data (published_state H) = pair_at H \<and>
   ((\<exists>w \<in> set ws. timed_out w) \<longrightarrow> wait_for_new_data lv (published_state H) run ws \<noteq> None) \<and>
   (wait_for_new_data lv (published_state H) run ws = Some (v, s, a) \<and>
    lv \<le> version (published_state H) \<and>
    length H + length (concat (map published ws)) < 2 ^ 64 \<longrightarrow>
      (\<exists>k \<le> length (concat (map published ws)).
         v = of_nat (length H + k) \<and>
         (s, a) = pair_at (H @ take k (concat (map published ws))) \<and>
         ((v = lv \<and> k = 0) \<or> lv < v))) \<and>
   (wait_for_new_data lv (published_state H) run ws = Some (lv, s, a) \<longrightarrow>
      \<not> run \<or> (\<exists>w \<in> set ws. timed_out w \<or> \<not> running_after w)) \<and>
   (version (published_state H) = lv \<and> run \<longrightarrow>
      wait_for_new_data lv (published_state H) run (Wake [] True r # ws) =
        Some (lv, fst (pair_at H), snd (pair_at H)) \<and>
      wait_for_new_data lv (published_state H) run (Wake [] False True # ws) =
        wait_for_new_data lv (published_state H) True ws \<and>
      (ps \<noteq> [] \<and> length H + length ps < 2 ^ 64 \<longrightarrow>
         wait_for_new_data lv (published_state H) run (Wake ps t r # ws) =
           Some (of_nat (length H + length ps), fst (last ps), snd (last ps)) \<and>
         lv < of_nat (length H + length ps))) \<and>
   data_reader_iteration (Some sd) smp True (published_state H) =
     published_state (H @ [(smp, buffer sd ! (BUFFER_SIZE - 1))])"
proof -
  have pass: "data_reader_iteration (Some sd) smp True (published_state H) =
      published_state (H @ [(smp, buffer sd ! (BUFFER_SIZE - 1))])"
    by (simp add: data_reader_iteration_def published_state_append Let_def)
  have ret: "wait_for_new_data lv (published_state H) run ws \<noteq> None"
    if "\<exists>w \<in> set ws. timed_out w"
    using wait_loop_returns [OF that, of lv "published_state H" run]
    by (auto simp: wait_for_new_data_def)
  have same: "\<not> run \<or> (\<exists>w \<in> set ws. timed_out w \<or> \<not> running_after w)"
    if "wait_for_new_data lv (published_state H) run ws = Some (lv, s, a)"
    using that by (rule wait_unchanged_needs_timeout)
  have at: "wait_for_new_data lv (published_state H) run (Wake [] True r # ws) =
        Some (lv, fst (pair_at H), snd (pair_at H)) \<and>
      wait_for_new_data lv (published_state H) run (Wake [] False True # ws) =
        wait_for_new_data lv (published_state H) True ws \<and>
      (ps \<noteq> [] \<and> length H + length ps < 2 ^ 64 \<longrightarrow>
         wait_for_new_data lv (published_state H) run (Wake ps t r # ws) =
           Some (of_nat (length H + length ps), fst (last ps), snd (last ps)) \<and>
         lv < of_nat (length H + length ps))"
    if "version (published_state H) = lv" "run"
    using wait_timeout_old_data [OF that] wait_spurious_wake [OF that]
      wait_new_data [OF that] by blast
  from ret same at pass version_strictly_increases [of H p] get_cached_data_published [of H]
    wait_for_new_data_observes [of lv H run ws v s a]
  show ?thesis by blast
qed

text \<open>
  The statement for claim C4 at the initial cache: a wait that times out with nothing
  published, and a wait during which one pair is published.
\<close>

theorem cache_version_and_pairs_witness:
  "version (published_state []) < version (published_state [(zero_sample, zero_sample)]) \<and>
   wait_for_new_data 0 (published_state []) True [Wake [] True True] =
     Some (0, zero_sample, zero_sample) \<and>
   wait_for_new_data 0 (published_state []) True [Wake [] False True, Wake [] True True] =
     Some (0, zero_sample, zero_sample) \<and>
   wait_for_new_data 0 (published_state []) True
     [Wake [(zero_sample\<lparr>ax := 1\<rparr>, zero_sample)] False True] =
     Some (1, zero_sample\<lparr>ax := 1\<rparr>, zero_sample) \<and>
   (\<exists>k \<le> 1.
      (1 :: 64 word) = of_nat k \<and>
      (zero_sample\<lparr>ax := 1\<rparr>, zero_sample) = pair_at (take k [(zero_sample\<lparr>ax := 1\<rparr>, zero_sample)]) \<and>
      (((1 :: 64 word) = 0 \<and> k = 0) \<or> (0 :: 64 word) < 1)) \<and>
   (\<exists>w \<in> set [Wake [] True True]. timed_out w \<or> \<not> running_after w)"
proof -
  let ?s1 = "zero_sample\<lparr>ax := 1\<rparr>"
  have at: "version (published_state []) = 0 \<and> True"
    by (simp add: version_published)
  have p0: "pair_at [] = (zero_sample, zero_sample)" by (simp add: pair_at_def)
  have one: "[(?s1, zero_sample)] \<noteq> [] \<and>
      length ([] :: (mpu6050_sample_float_t \<times> mpu6050_sample_float_t) list) +
      length [(?s1, zero_sample)] < 2 ^ 64" by simp
  have step: "length ([] :: (mpu6050_sample_float_t \<times> mpu6050_sample_float_t) list) + 1 < 2 ^ 64"
    by simp
  have deadline: "\<exists>w \<in> set [Wake [] True True]. timed_out w" by simp
  note A = cache_version_and_pairs
    [of "[]" "(zero_sample, zero_sample)" "[]" 0 True 0 zero_sample zero_sample True
        "[(?s1, zero_sample)]" False]
  from A at p0 have timeout:
    "wait_for_new_data 0 (published_state []) True [Wake [] True True] =
       Some (0, zero_sample, zero_sample)" by simp
  from A at one have fresh:
    "wait_for_new_data 0 (published_state []) True [Wake [(?s1, zero_sample)] False True] =
       Some (1, ?s1, zero_sample)" by simp
  note B = cache_version_and_pairs
    [of "[]" "(zero_sample, zero_sample)" "[Wake [] True True]" 0 True 0 zero_sample zero_sample
        True "[(?s1, zero_sample)]" False]
  from B at timeout have spurious:
    "wait_for_new_data 0 (published_state []) True [Wake [] False True, Wake [] True True] =
       Some (0, zero_sample, zero_sample)" by simp
  from B timeout have only: "\<exists>w \<in> set [Wake [] True True]. timed_out w \<or> \<not> running_after w"
    by blast
  from B deadline have "wait_for_new_data 0 (published_state []) True [Wake [] True True] \<noteq> None"
    by blast
  note C = cache_version_and_pairs
    [of "[]" "(zero_sample, zero_sample)" "[Wake [(?s1, zero_sample)] False True]" 0 True
        1 ?s1 zero_sample True "[(?s1, zero_sample)]" False]
  have seen: "(0 :: 64 word) \<le> version (published_state [])" by simp
  have room: "length ([] :: (mpu6050_sample_float_t \<times> mpu6050_sample_float_t) list) +
      length (concat (map published [Wake [(?s1, zero_sample)] False True])) < 2 ^ 64" by simp
  from C fresh seen room have seenk:
    "\<exists>k \<le> 1.
      (1 :: 64 word) = of_nat k \<and>
      (?s1, zero_sample) = pair_at (take k [(?s1, zero_sample)]) \<and>
      (((1 :: 64 word) = 0 \<and> k = 0) \<or> (0 :: 64 word) < 1)" by simp
  from A step have "version (published_state []) < version (published_state [(zero_sample, zero_sample)])"
    by simp
  with timeout spurious fresh seenk only show ?thesis by blast
qed

lemma version_reader_passes:
  "version (data_reader_thread (replicate n (Some sd, smp, True)) c) = version c + of_nat n"
  by (induction n arbitrary: c) (simp_all add: data_reader_iteration_def cache_publish_def Let_def)

lemma pair_reader_passes_gen:
  "get_cached_data (data_reader_thread (replicate n (Some sd, smp, True)) c) =
     (if n = 0 then get_cached_data c
      else (smp, buffer sd ! (BUFFER_SIZE - 1)))"
proof (induction n arbitrary: c)
  case 0
  show ?case by simp
next
  case (Suc n)
  show ?case
    by (simp add: Suc.IH) (simp add: data_reader_iteration_def cache_publish_def Let_def
        get_cached_data_def)
qed

lemma pair_reader_passes:
  "get_cached_data (data_reader_thread (replicate n (Some sd, smp, True)) (data_reader_iteration (Some sd) smp True c)) =
   get_cached_data (data_reader_iteration (Some sd) smp True c)"
  by (simp add: pair_reader_passes_gen)
    (simp add: data_reader_iteration_def cache_publish_def Let_def get_cached_data_def)

lemma reader_iteration_same_pair:
  assumes "smp = cached_data_t.current_sample c"
    and "buffer sd ! (BUFFER_SIZE - 1) = cached_data_t.average c"
  shows "data_reader_iteration (Some sd) smp True c = c\<lparr>version := version c + 1\<rparr>"
  using assms by (simp add: data_reader_iteration_def cache_publish_def Let_def)

lemma sse_frame_after_advance:
  "\<exists>evs ended.
     sse_loop fmt snd_ret (version c) (EpollTimeout (c\<lparr>version := version c + 1\<rparr>) run ws now # ins) =
       (Send (sse_frame fmt (cached_data_t.current_sample c) (cached_data_t.average c) now) # evs, ended)"
proof -
  have "wait_for_new_data (version c) (c\<lparr>version := version c + 1\<rparr>) run ws =
        Some (version c + 1, cached_data_t.current_sample c, cached_data_t.average c)"
    by (simp add: wait_for_new_data_def wait_loop_exit)
  then show ?thesis
    by (cases "sse_loop fmt snd_ret (version c + 1) ins") (auto simp: Let_def)
qed

text \<open>
  Claim C8. Every pass of the reader thread with the segment attached adds one to the
  version (modulo \<open>2^64\<close>), so the version differs from the one before; \<open>n\<close> passes over an
  unchanged segment, as when the producer is stopped, add \<open>n\<close> and leave the published pair
  as it is after the first. When the pair copied equals the pair already in the cache, the
  pass changes the version only, and a \<^verbatim>\<open>/events\<close> handler that had seen the old version sends
  a frame with the unchanged values.
\<close>

theorem reader_iteration_advances_version:
  "version (data_reader_iteration (Some sd) smp True c) = version c + 1 \<and>
   version (data_reader_iteration (Some sd) smp True c) \<noteq> version c \<and>
   version (data_reader_thread (replicate n (Some sd, smp, True)) c) = version c + of_nat n \<and>
   get_cached_data
     (data_reader_thread (replicate n (Some sd, smp, True)) (data_reader_iteration (Some sd) smp True c)) =
     get_cached_data (data_reader_iteration (Some sd) smp True c) \<and>
   (smp = cached_data_t.current_sample c \<and>
    buffer sd ! (BUFFER_SIZE - 1) = cached_data_t.average c \<longrightarrow>
      get_cached_data (data_reader_iteration (Some sd) smp True c) = get_cached_data c \<and>
      (\<exists>evs ended.
         sse_loop fmt snd_ret (version c)
           (EpollTimeout (data_reader_iteration (Some sd) smp True c) run ws now # ins) =
         (Send (sse_frame fmt (cached_data_t.current_sample c) (cached_data_t.average c) now) # evs,
          ended)))"
proof -
  have v: "version (data_reader_iteration (Some sd) smp True c) = version c + 1"
    by (simp add: data_reader_iteration_def cache_publish_def Let_def)
  have "get_cached_data (c\<lparr>version := version c + 1\<rparr>) = get_cached_data c"
    by (simp add: get_cached_data_def)
  with v version_reader_passes [of n sd smp c] pair_reader_passes [of n sd smp c]
    reader_iteration_same_pair [of smp c sd] sse_frame_after_advance [of fmt snd_ret c run ws now ins]
  show ?thesis by auto
qed

text \<open>The statement for claim C8 at the zeroed segment and the initial cache.\<close>

theorem reader_iteration_advances_version_witness:
  "get_cached_data (data_reader_iteration (Some zero_shared) zero_sample True g_cached_data) =
     get_cached_data g_cached_data \<and>
   version (data_reader_iteration (Some zero_shared) zero_sample True g_cached_data) = 1 \<and>
   (\<exists>evs ended.
      sse_loop (\<lambda>x. ''0.000000'') (\<lambda>s. int (length s)) 0
        (EpollTimeout (data_reader_iteration (Some zero_shared) zero_sample True g_cached_data) True [] 0 # []) =
      (Send (sse_frame (\<lambda>x. ''0.000000'') zero_sample zero_sample 0) # evs, ended))"
proof -
  have h: "zero_sample = cached_data_t.current_sample g_cached_data \<and>
      buffer zero_shared ! (BUFFER_SIZE - 1) = cached_data_t.average g_cached_data"
    by (simp add: zero_shared_def g_cached_data_def BUFFER_SIZE_def)
  have g: "version g_cached_data = 0" "cached_data_t.current_sample g_cached_data = zero_sample"
    "cached_data_t.average g_cached_data = zero_sample"
    by (simp_all add: g_cached_data_def)
  from h reader_iteration_advances_version
    [of zero_shared zero_sample g_cached_data 0 "\<lambda>x. ''0.000000''" "\<lambda>s. int (length s)" True "[]" 0 "[]"]
  show ?thesis unfolding g by simp
qed

section \<open>Verification: admission control\<close>

lemma admission_check_limit:
  "0 < max_connnections cfg \<Longrightarrow>
   admission_check cfg a = Admit \<longleftrightarrow> a < max_connnections cfg"
  by (simp add: admission_check_def)

lemma send_response_no_dec: "ActiveDec \<notin> set (send_response snd_ret hdr bdy)"
  by (simp add: send_response_def Let_def)

lemma sse_loop_no_dec: "ActiveDec \<notin> set (fst (sse_loop fmt snd_ret lv ins))"
proof (induction fmt snd_ret lv ins rule: sse_loop.induct)
  case (4 fmt snd_ret last_version c run ws now ins)
  show ?case
  proof (cases "wait_for_new_data last_version c run ws")
    case None
    then show ?thesis by simp
  next
    case (Some r)
    obtain nv s a where r: "r = (nv, s, a)" by (cases r)
    show ?thesis
    proof (cases "nv = last_version")
      case True
      with Some r "4.IH"(1) show ?thesis by simp
    next
      case False
      from "4.IH"(2) [OF Some [unfolded r] refl refl False refl]
      have "snd_ret (sse_frame fmt s a now) \<le> 0 \<or>
            ActiveDec \<notin> set (fst (sse_loop fmt snd_ret nv ins))" by blast
      with Some r False show ?thesis
        by (auto simp: Let_def split: prod.splits)
    qed
  qed
qed auto

lemma events_branch_no_dec: "ActiveDec \<notin> set (fst (events_branch env))"
  using sse_loop_no_dec [of "fmt_f env" "send_ret env" 0 "sse_inputs env"]
  by (auto simp: events_branch_def Let_def split: prod.splits)

lemma route_no_dec: "ActiveDec \<notin> set (fst (route env c path))"
  using events_branch_no_dec [of env]
  by (auto simp: route_def Let_def send_response_no_dec split: prod.splits)

lemma conn_body_no_dec: "ActiveDec \<notin> set (fst (conn_body env c arg))"
  using route_no_dec
  by (auto simp: conn_body_def Let_def split: option.splits prod.splits)

lemma count_list_absent: "x \<notin> set xs \<Longrightarrow> count_list xs x = 0"
  by (induction xs) auto

lemma conn_handler_decrements_once:
  "(snd (conn_handler env c arg) \<longrightarrow>
      count_list (fst (conn_handler env c arg)) ActiveDec = 1 \<and>
      last (fst (conn_handler env c arg)) = ActiveDec) \<and>
   (\<not> snd (conn_handler env c arg) \<longrightarrow> count_list (fst (conn_handler env c arg)) ActiveDec = 0)"
  using conn_body_no_dec [of env c arg]
  by (cases "conn_body env c arg") (auto simp: conn_handler_def count_list_absent)

lemma counter_after_append:
  "counter_after (xs @ ys) g = counter_after ys (counter_after xs g)"
  by (induction xs g rule: counter_after.induct) simp_all

lemma counter_after_no_dec: "ActiveDec \<notin> set evs \<Longrightarrow> counter_after evs g = g"
  by (induction evs g rule: counter_after.induct) simp_all

lemma counter_after_handler:
  assumes "snd (conn_handler env c arg)"
  shows "counter_after (fst (conn_handler env c arg)) g = g - 1"
proof -
  obtain evs ended where body: "conn_body env c arg = (evs, ended)"
    by (cases "conn_body env c arg")
  with assms have h: "conn_handler env c arg = (evs @ [ActiveDec], True)"
    by (auto simp: conn_handler_def split: if_splits)
  have "ActiveDec \<notin> set evs" using conn_body_no_dec [of env c arg] body by simp
  then show ?thesis by (simp add: h counter_after_append counter_after_no_dec)
qed

lemma handler_exit_step:
  "conn_step cfg (HandlerExit env c arg) s =
     (if 0 < handlers s \<and> snd (conn_handler env c arg) then
        Some (s\<lparr>g_active_connections := g_active_connections s - 1, handlers := handlers s - 1\<rparr>)
      else None)"
proof (cases "conn_handler env c arg")
  case (Pair evs ended)
  show ?thesis
  proof (cases ended)
    case True
    with Pair have "counter_after evs (g_active_connections s) = g_active_connections s - 1"
      using counter_after_handler [of env c arg "g_active_connections s"] by simp
    with Pair True show ?thesis by simp
  next
    case False
    with Pair show ?thesis by simp
  qed
qed

declare conn_step.simps(5) [simp del]

lemma conn_inv_init: "0 < K \<Longrightarrow> conn_inv K conn_init"
  by (simp add: conn_inv_def conn_init_def)

lemma conn_inv_step:
  assumes inv: "conn_inv (max_connnections cfg) s" and K: "0 < max_connnections cfg"
    and st: "conn_step cfg act s = Some s'"
  shows "conn_inv (max_connnections cfg) s'"
proof (cases act)
  case Load
  with st inv show ?thesis
    by (auto simp: conn_inv_def split: acceptor_pc.splits)
next
  case Decide
  from st Decide obtain a where a: "acceptor s = Loaded a"
    by (auto split: acceptor_pc.splits)
  show ?thesis
  proof (cases "admission_check cfg a = Admit")
    case True
    then have "a < max_connnections cfg" using K by (simp add: admission_check_limit)
    moreover from st Decide a True
    have "s' = s\<lparr>g_active_connections := g_active_connections s + 1, acceptor := Reserved\<rparr>"
      by simp
    ultimately show ?thesis using inv a by (auto simp: conn_inv_def)
  next
    case False
    with st Decide a have "s' = s\<lparr>acceptor := Waiting, refused := refused s + 1\<rparr>"
      by (cases "admission_check cfg a") simp_all
    then show ?thesis using inv a by (auto simp: conn_inv_def)
  qed
next
  case SpawnOk
  with st inv show ?thesis
    by (auto simp: conn_inv_def split: acceptor_pc.splits)
next
  case SpawnFailed
  with st inv show ?thesis
    by (auto simp: conn_inv_def split: acceptor_pc.splits)
next
  case (HandlerExit env c arg)
  with st inv show ?thesis
    by (auto simp: handler_exit_step conn_inv_def split: if_splits)
qed

lemma conn_inv_run:
  "conn_inv (max_connnections cfg) s \<Longrightarrow> 0 < max_connnections cfg \<Longrightarrow>
   conn_run cfg sched s = Some s' \<Longrightarrow> conn_inv (max_connnections cfg) s'"
proof (induction sched arbitrary: s)
  case Nil
  then show ?case by simp
next
  case (Cons act sched)
  from Cons.prems(3) obtain s1 where s1: "conn_step cfg act s = Some s1"
    and rest: "conn_run cfg sched s1 = Some s'"
    by (auto split: option.splits)
  from conn_inv_step [OF Cons.prems(1,2) s1] Cons.IH Cons.prems(2) rest show ?case by blast
qed

lemma refused_when_full:
  assumes "acceptor s = Waiting"
    and "0 < max_connnections cfg \<and> max_connnections cfg \<le> g_active_connections s \<or>
         max_connnections cfg = 0"
  shows "conn_run cfg [Load, Decide] s = Some (s\<lparr>acceptor := Waiting, refused := refused s + 1\<rparr>)"
  using assms by (auto simp: admission_check_def)

lemma admitted_below_limit:
  assumes "acceptor s = Waiting" "0 < max_connnections cfg"
    "g_active_connections s < max_connnections cfg"
  shows "conn_run cfg [Load, Decide, SpawnOk] s =
           Some (s\<lparr>g_active_connections := g_active_connections s + 1, acceptor := Waiting,
                   handlers := handlers s + 1\<rparr>)"
    and "conn_run cfg [Load, Decide, SpawnFailed] s = Some (s\<lparr>acceptor := Waiting\<rparr>)"
  using assms by (auto simp: admission_check_def)

lemma release_admits_one:
  assumes w: "acceptor s = Waiting" and K: "0 < max_connnections cfg"
    and full: "g_active_connections s = max_connnections cfg"
    and live: "0 < handlers s" and ret: "snd (conn_handler env c arg)"
  shows "conn_run cfg [HandlerExit env c arg, Load, Decide, SpawnOk, Load, Decide] s =
           Some (s\<lparr>acceptor := Waiting, refused := refused s + 1\<rparr>)"
proof -
  define s1 where
    "s1 = s\<lparr>g_active_connections := g_active_connections s - 1, handlers := handlers s - 1\<rparr>"
  have e: "conn_step cfg (HandlerExit env c arg) s = Some s1"
    using live ret by (simp add: handler_exit_step s1_def)
  have s1: "acceptor s1 = Waiting" "g_active_connections s1 < max_connnections cfg"
    using w full by (simp_all add: s1_def)
  define s2 where
    "s2 = s1\<lparr>g_active_connections := g_active_connections s1 + 1, acceptor := Waiting,
            handlers := handlers s1 + 1\<rparr>"
  have a: "conn_run cfg [Load, Decide, SpawnOk] s1 = Some s2"
    unfolding s2_def by (rule admitted_below_limit(1) [OF s1(1) K s1(2)])
  have s2: "s2 = s" using live w by (simp add: s2_def s1_def)
  have r: "conn_run cfg [Load, Decide] s = Some (s\<lparr>acceptor := Waiting, refused := refused s + 1\<rparr>)"
    using w K full by (intro refused_when_full) simp_all
  have split: "conn_run cfg (xs @ ys) t = (case conn_run cfg xs t of None \<Rightarrow> None | Some t' \<Rightarrow> conn_run cfg ys t')"
    for xs ys t by (induction xs arbitrary: t) (simp_all split: option.splits)
  have "conn_run cfg ([HandlerExit env c arg] @ [Load, Decide, SpawnOk] @ [Load, Decide]) s =
        Some (s\<lparr>acceptor := Waiting, refused := refused s + 1\<rparr>)"
    unfolding split using e a r by (simp add: s2 del: conn_step.simps)
  then show ?thesis by simp
qed

text \<open>
  Claim C5. With a limit \<open>K > 0\<close>, in every state reached by the acceptor and the handler
  threads the counter is at most \<open>K\<close> and counts the live handlers plus the acceptor's
  reservation, which is made before the thread is created. The return of a handler thread is
  enabled exactly when a handler is live and its run has ended, and it takes one from the
  counter. From a state with the acceptor between accepts: a connection accepted while the
  counter is at \<open>K\<close> or above, or under a limit of 0, is refused and leaves the counter as it
  is; below the limit it is admitted, the counter grows by one and a handler is added, or,
  when \<^verbatim>\<open>pthread_create\<close> fails, the reservation is given back; and after the return of one
  handler of a full server the next connection is admitted, which fills the server again,
  and the one after it is refused. The acceptor closes a refused socket with nothing sent.
  A handler that returns has run the decrement exactly once, as its last action; a handler
  still streaming has not run it.
\<close>

theorem admission_bounded_by_max_connections:
  "(0 < max_connnections cfg \<and> conn_run cfg sched conn_init = Some s \<longrightarrow>
      g_active_connections s \<le> max_connnections cfg \<and>
      g_active_connections s = int (handlers s) + (if acceptor s = Reserved then 1 else 0)) \<and>
   conn_step cfg (HandlerExit env c arg) t =
     (if 0 < handlers t \<and> snd (conn_handler env c arg) then
        Some (t\<lparr>g_active_connections := g_active_connections t - 1, handlers := handlers t - 1\<rparr>)
      else None) \<and>
   (acceptor t = Waiting \<and> 0 < max_connnections cfg \<and>
    max_connnections cfg \<le> g_active_connections t \<longrightarrow>
      conn_run cfg [Load, Decide] t = Some (t\<lparr>acceptor := Waiting, refused := refused t + 1\<rparr>)) \<and>
   (acceptor t = Waiting \<and> max_connnections cfg = 0 \<longrightarrow>
      conn_run cfg [Load, Decide] t = Some (t\<lparr>acceptor := Waiting, refused := refused t + 1\<rparr>)) \<and>
   (acceptor t = Waiting \<and> 0 < max_connnections cfg \<and>
    g_active_connections t < max_connnections cfg \<longrightarrow>
      conn_run cfg [Load, Decide, SpawnOk] t =
        Some (t\<lparr>g_active_connections := g_active_connections t + 1, acceptor := Waiting,
                handlers := handlers t + 1\<rparr>) \<and>
      conn_run cfg [Load, Decide, SpawnFailed] t = Some (t\<lparr>acceptor := Waiting\<rparr>)) \<and>
   (acceptor t = Waiting \<and> 0 < max_connnections cfg \<and>
    g_active_connections t = max_connnections cfg \<and> 0 < handlers t \<and>
    snd (conn_handler env c arg) \<longrightarrow>
      conn_run cfg [HandlerExit env c arg, Load, Decide, SpawnOk, Load, Decide] t =
        Some (t\<lparr>acceptor := Waiting, refused := refused t + 1\<rparr>)) \<and>
   (0 < max_connnections cfg \<and> max_connnections cfg \<le> g \<longrightarrow>
      accept_connection cfg create_ok g = (g, [Close], False)) \<and>
   (max_connnections cfg = 0 \<longrightarrow> accept_connection cfg create_ok g = (g, [Close], False)) \<and>
   (0 < max_connnections cfg \<and> g < max_connnections cfg \<longrightarrow>
      accept_connection cfg True g = (g + 1, [], True) \<and>
      accept_connection cfg False g = (g, [Close], False)) \<and>
   (0 < max_connnections cfg \<longrightarrow>
      accept_connection cfg True (max_connnections cfg - 1) = (max_connnections cfg, [], True) \<and>
      accept_connection cfg True (max_connnections cfg) = (max_connnections cfg, [Close], False)) \<and>
   (snd (conn_handler env c arg) \<longrightarrow>
      count_list (fst (conn_handler env c arg)) ActiveDec = 1 \<and>
      last (fst (conn_handler env c arg)) = ActiveDec) \<and>
   (\<not> snd (conn_handler env c arg) \<longrightarrow> count_list (fst (conn_handler env c arg)) ActiveDec = 0)"
proof -
  have inv: "g_active_connections s \<le> max_connnections cfg \<and>
      g_active_connections s = int (handlers s) + (if acceptor s = Reserved then 1 else 0)"
    if "0 < max_connnections cfg" "conn_run cfg sched conn_init = Some s"
    using conn_inv_run [OF conn_inv_init [OF that(1)] that] by (simp add: conn_inv_def)
  have full: "conn_run cfg [Load, Decide] t = Some (t\<lparr>acceptor := Waiting, refused := refused t + 1\<rparr>)"
    if "acceptor t = Waiting"
      "0 < max_connnections cfg \<and> max_connnections cfg \<le> g_active_connections t \<or>
       max_connnections cfg = 0"
    using that by (rule refused_when_full)
  have below: "conn_run cfg [Load, Decide, SpawnOk] t =
        Some (t\<lparr>g_active_connections := g_active_connections t + 1, acceptor := Waiting,
                handlers := handlers t + 1\<rparr>) \<and>
      conn_run cfg [Load, Decide, SpawnFailed] t = Some (t\<lparr>acceptor := Waiting\<rparr>)"
    if "acceptor t = Waiting" "0 < max_connnections cfg"
      "g_active_connections t < max_connnections cfg"
    using admitted_below_limit [OF that] by simp
  have release: "conn_run cfg [HandlerExit env c arg, Load, Decide, SpawnOk, Load, Decide] t =
        Some (t\<lparr>acceptor := Waiting, refused := refused t + 1\<rparr>)"
    if "acceptor t = Waiting" "0 < max_connnections cfg"
      "g_active_connections t = max_connnections cfg" "0 < handlers t"
      "snd (conn_handler env c arg)"
    using that by (rule release_admits_one)
  have acc:
    "0 < max_connnections cfg \<and> max_connnections cfg \<le> g \<longrightarrow>
       accept_connection cfg create_ok g = (g, [Close], False)"
    "max_connnections cfg = 0 \<longrightarrow> accept_connection cfg create_ok g = (g, [Close], False)"
    "0 < max_connnections cfg \<and> g < max_connnections cfg \<longrightarrow>
       accept_connection cfg True g = (g + 1, [], True) \<and>
       accept_connection cfg False g = (g, [Close], False)"
    "0 < max_connnections cfg \<longrightarrow>
       accept_connection cfg True (max_connnections cfg - 1) = (max_connnections cfg, [], True) \<and>
       accept_connection cfg True (max_connnections cfg) = (max_connnections cfg, [Close], False)"
    by (simp_all add: accept_connection_def admission_check_def)
  from inv full below release acc handler_exit_step [of cfg env c arg t]
    conn_handler_decrements_once [of env c arg]
  show ?thesis by blast
qed

section \<open>Verification: configuration reload\<close>






section \<open>Verification: the producer's named objects\<close>

lemma producer_cycles_writes:
  "producer_cycles (map Some ss) sd = producer_writes ss sd"
  by (induction ss arbitrary: sd) simp_all

lemma startup_config_default:
  "fst (read_config_from_file file \<lparr>max_connnections = 0, backlog = 0, port = 0\<rparr>) \<noteq> 0 \<Longrightarrow>
   startup_config file = DEFAULT_SERVER_CONFIG"
  by (auto simp: startup_config_def split: prod.splits)

text \<open>
  Claim C7 as stated fails: after the producer has started on a system without named objects
  and shut down, both names exist.
\<close>

theorem producer_shutdown_keeps_names_counterexample:
  "shm_objects (fst (snd (producer_main None [] no_objects))) SHM_NAME = Some zero_shared \<and>
   sem_objects (fst (snd (producer_main None [] no_objects))) SEM_NAME = Some 1"
  by (simp add: producer_main_def no_objects_def sem_after_def Let_def)

text \<open>
  Claim C7, as amended. A producer that started and was stopped by a signal exits with code 0
  and holds no handle any more; the shared-memory object, with the last contents of the ring,
  and the semaphore keep their names. The cleanup of the launch script removes both names.
\<close>

theorem producer_shutdown_releases_handles_only:
  "fst (producer_main None cycles os) = 0 \<and>
   shm_objects (fst (snd (producer_main None cycles os))) SHM_NAME =
     Some (producer_cycles cycles zero_shared) \<and>
   sem_objects (fst (snd (producer_main None cycles os))) SEM_NAME \<noteq> None \<and>
   snd (snd (producer_main None cycles os)) =
     \<lparr>shm_fd_open = False, mapped = False, sem_open = False\<rparr> \<and>
   shm_objects (start_sh_cleanup (fst (snd (producer_main None cycles os)))) SHM_NAME = None \<and>
   sem_objects (start_sh_cleanup (fst (snd (producer_main None cycles os)))) SEM_NAME = None"
  by (simp add: producer_main_def start_sh_cleanup_def Let_def split: option.splits)

section \<open>Verification: routing and the JSON snapshot\<close>

lemma scan_s_token:
  assumes w: "\<forall>c \<in> set w. isspace c"
    and tok: "tok \<noteq> []" "\<forall>c \<in> set tok. \<not> isspace c" and n: "0 < n"
    and rest: "rest = [] \<or> isspace (hd rest)"
  shows "scan_s n (w @ tok @ rest) = Some (take n tok, drop n tok @ rest)"
proof -
  have hd: "\<not> isspace (hd tok)" using tok by (cases tok) auto
  have sk: "skip_ws (w @ tok @ rest) = tok @ rest"
    unfolding skip_ws_def using w tok(1) hd
    by (cases tok) (simp_all add: dropWhile_append3)
  have tw: "takeWhile (\<lambda>c. \<not> isspace c) (tok @ rest) = tok"
    using tok(2) rest by (cases rest) (auto simp: takeWhile_tail)
  have ne: "take n tok \<noteq> []" using tok(1) n by (cases tok) (simp_all add: take_Cons')
  have dr: "drop (min (length tok) n) tok = drop n tok"
    by (cases "n \<le> length tok") (simp_all add: min_def)
  show ?thesis using ne by (simp add: scan_s_def Let_def sk tw dr)
qed

lemma scan_s_nonempty:
  assumes w: "\<forall>c \<in> set w. isspace c" and r: "r \<noteq> []" "\<not> isspace (hd r)"
  shows "\<exists>v r'. scan_s 15 (w @ r) = Some (v, r')"
proof -
  have "skip_ws (w @ r) = r"
    unfolding skip_ws_def using w r by (cases r) (simp_all add: dropWhile_append3)
  moreover have "take 15 (takeWhile (\<lambda>c. \<not> isspace c) r) \<noteq> []"
    using r by (cases r) auto
  ultimately show ?thesis by (simp add: scan_s_def Let_def)
qed

lemma sscanf3_tokens:
  assumes w: "\<forall>c \<in> set w0. isspace c" "\<forall>c \<in> set w1. isspace c" "\<forall>c \<in> set w2. isspace c"
    and gaps: "w1 \<noteq> []" "w2 \<noteq> []"
    and m: "m \<noteq> []" "\<forall>c \<in> set m. \<not> isspace c" "length m \<le> 15"
    and p: "p \<noteq> []" "\<forall>c \<in> set p. \<not> isspace c"
    and r: "r \<noteq> []" "\<not> isspace (hd r)"
  shows "\<exists>v. sscanf3 (w0 @ m @ w1 @ p @ w2 @ r) = Some (m, take 255 p, v)"
proof -
  have g1: "w1 @ p @ w2 @ r = [] \<or> isspace (hd (w1 @ p @ w2 @ r))"
    using gaps(1) w(2) by (cases w1) auto
  have g2: "w2 @ r = [] \<or> isspace (hd (w2 @ r))"
    using gaps(2) w(3) by (cases w2) auto
  have s1: "scan_s 15 (w0 @ m @ w1 @ p @ w2 @ r) = Some (m, w1 @ p @ w2 @ r)"
    using scan_s_token [OF w(1) m(1,2) _ g1, of 15] m(3) by simp
  have s2: "scan_s 255 (w1 @ p @ w2 @ r) = Some (take 255 p, drop 255 p @ w2 @ r)"
    using scan_s_token [OF w(2) p _ g2, of 255] by simp
  have "\<exists>v r'. scan_s 15 (drop 255 p @ w2 @ r) = Some (v, r')"
  proof (cases "drop 255 p = []")
    case True
    with scan_s_nonempty [OF w(3) r] show ?thesis by simp
  next
    case False
    then have "hd (drop 255 p) \<in> set p" by (meson hd_in_set in_set_dropD)
    with p(2) False have "\<not> isspace (hd (drop 255 p @ w2 @ r))" by simp
    with False scan_s_nonempty [of "[]" "drop 255 p @ w2 @ r"] show ?thesis by simp
  qed
  then obtain v r' where s3: "scan_s 15 (drop 255 p @ w2 @ r) = Some (v, r')" by blast
  show ?thesis by (simp add: sscanf3_def s1 s2 s3)
qed

lemma conn_body_parsed:
  "bytes \<noteq> [] \<Longrightarrow> sscanf3 (c_str (take 1023 bytes)) = Some (m, p, v) \<Longrightarrow>
   conn_body env c (Some bytes) = route env c p"
  by (simp add: conn_body_def Let_def)

lemma neq_by_length: "length xs \<noteq> length ys \<Longrightarrow> xs \<noteq> ys"
  by auto

lemma route_long_path:
  assumes "7 < length path"
  shows "path \<noteq> ''/''" "path \<noteq> ''/json''" "path \<noteq> ''/events''"
  using assms by (auto intro!: neq_by_length)

lemma route_take: "route env c (take 255 p) = route env c p"
proof (cases "length p \<le> 255")
  case True
  then show ?thesis by simp
next
  case False
  then have "7 < length (take 255 p)" "7 < length p" by simp_all
  from route_long_path [OF this(1)] route_long_path [OF this(2)]
  show ?thesis by (simp add: route_def)
qed

lemma route_cases:
  "route env c p =
     (if p = ''/'' then
        (send_response (send_ret env) (snprintf 256 (root_header (int (length page))))
           (snprintf 512 page), True)
      else if p = ''/json'' then
        (send_response (send_ret env)
           (snprintf 256 (json_header (int (length
              (json_text (fmt_f env) (cached_data_t.current_sample c) (cached_data_t.average c)
                 (time_now env))))))
           (snprintf 512
              (json_text (fmt_f env) (cached_data_t.current_sample c) (cached_data_t.average c)
                 (time_now env))), True)
      else if p = ''/events'' then events_branch env
      else
        (send_response (send_ret env) (snprintf 256 (notfound_header (int (length notfound_body))))
           (snprintf 512 notfound_body), True))"
  by (simp add: route_def get_cached_data_def Let_def snprintf_def)

lemma conn_body_tokens:
  assumes req: "c_str (take 1023 bytes) = w0 @ m @ w1 @ p @ w2 @ r"
    and w: "\<forall>ch \<in> set (w0 @ w1 @ w2). isspace ch" and gaps: "w1 \<noteq> []" "w2 \<noteq> []"
    and m: "m \<noteq> []" "\<forall>ch \<in> set m. \<not> isspace ch" "length m \<le> 15"
    and p: "p \<noteq> []" "\<forall>ch \<in> set p. \<not> isspace ch"
    and r: "r \<noteq> []" "\<not> isspace (hd r)"
  shows "conn_body env c (Some bytes) = route env c p"
proof -
  from sscanf3_tokens [of w0 w1 w2 m p r] w gaps m p r
  obtain v where "sscanf3 (w0 @ m @ w1 @ p @ w2 @ r) = Some (m, take 255 p, v)" by auto
  then have parsed: "sscanf3 (c_str (take 1023 bytes)) = Some (m, take 255 p, v)"
    by (simp only: req)
  have "c_str (take 1023 bytes) \<noteq> []" using m(1) by (simp add: req)
  then have "bytes \<noteq> []" by (auto simp: c_str_def)
  from conn_body_parsed [OF this parsed] show ?thesis by (simp only: route_take)
qed

lemma sscanf3_long:
  "sscanf3 (c_str (take 1023 long_method_request)) = Some (''XXXXXXXXXXXXXXX'', ''/json'', ''/nothing'')"
  by (simp add: long_method_request_def sscanf3_def c_str_def scan_s_def skip_ws_def isspace_def CRLF_def)

lemma sscanf3_nothing:
  "sscanf3 (c_str (take 1023 nothing_request)) = Some (''GET'', ''/nothing'', ''HTTP/1.1'')"
  by (simp add: nothing_request_def sscanf3_def c_str_def scan_s_def skip_ws_def isspace_def CRLF_def)

lemma sscanf3_get_json:
  "sscanf3 (c_str (take 1023 get_json_request)) = Some (''GET'', ''/json'', ''HTTP/1.1'')"
  by (simp add: get_json_request_def sscanf3_def c_str_def scan_s_def skip_ws_def isspace_def CRLF_def)

lemma hd_json_header: "take 15 (json_header n) = ''HTTP/1.1 200 OK''"
  by (simp add: json_header_def)

lemma hd_notfound_header: "take 15 (notfound_header n) = ''HTTP/1.1 404 No''"
  by (simp add: notfound_header_def)

lemma send_response_hd:
  assumes "h \<noteq> []"
  shows "\<exists>evs. send_response snd_ret (snprintf 256 h) b = Send (take 255 h) # evs"
proof -
  have "0 < clamp_len 256 (int (length h))" using assms by (simp add: clamp_len_def)
  moreover have "take (nat (clamp_len 256 (int (length h)))) (take 255 h) = take 255 h"
    by (simp add: clamp_len_def min_def)
  ultimately show ?thesis by (simp add: send_response_def snprintf_def Let_def)
qed

lemma send_response_ok:
  assumes "h \<noteq> []" "length h < 256" "b \<noteq> []" "length b < 512"
    and "snd_ret h = int (length h)"
  shows "send_response snd_ret (snprintf 256 h) (snprintf 512 b) = [Send h, Send b, Close]"
  using assms by (simp add: send_response_def snprintf_def clamp_len_def Let_def)

lemma dec_digits_length: "n < 1000 \<Longrightarrow> length (dec_digits n) \<le> 3"
  by (subst dec_digits.simps, subst dec_digits.simps, subst dec_digits.simps) simp

lemma json_header_length:
  assumes "0 \<le> n" "n < 1000"
  shows "length (json_header n) < 256"
proof -
  have "nat n < 1000" using assms by simp
  then have "length (dec_digits (nat n)) \<le> 3" by (rule dec_digits_length)
  then show ?thesis using assms by (simp add: json_header_def print_d_def CRLF_def)
qed

lemma route_json:
  "route env c ''/json'' =
     (send_response (send_ret env)
        (snprintf 256 (json_header (int (length
           (json_text (fmt_f env) (cached_data_t.current_sample c) (cached_data_t.average c) (time_now env))))))
        (snprintf 512
           (json_text (fmt_f env) (cached_data_t.current_sample c) (cached_data_t.average c) (time_now env))),
      True)"
  by (simp add: route_def get_cached_data_def Let_def snprintf_def)

lemma route_notfound:
  "route env c ''/nothing'' =
     (send_response (send_ret env) (snprintf 256 (notfound_header (int (length notfound_body))))
        (snprintf 512 notfound_body), True)"
  by (simp add: route_def get_cached_data_def Let_def snprintf_def)

lemma json_header_nonempty: "json_header n \<noteq> []"
  by (simp add: json_header_def)

lemma notfound_header_nonempty: "notfound_header n \<noteq> []"
  by (simp add: notfound_header_def)

lemma route_json_differs: "route env c ''/json'' \<noteq> route env c ''/nothing''"
proof
  assume eq: "route env c ''/json'' = route env c ''/nothing''"
  from send_response_hd [OF json_header_nonempty] send_response_hd [OF notfound_header_nonempty] eq
  have "take 255 (json_header (int (length
           (json_text (fmt_f env) (cached_data_t.current_sample c) (cached_data_t.average c) (time_now env))))) =
        take 255 (notfound_header (int (length notfound_body)))"
    unfolding route_json route_notfound by (metis Pair_inject event.inject list.inject)
  then have "take 15 (take 255 (json_header (int (length
           (json_text (fmt_f env) (cached_data_t.current_sample c) (cached_data_t.average c) (time_now env)))))) =
        take 15 (take 255 (notfound_header (int (length notfound_body))))" by simp
  then show False by (simp add: hd_json_header hd_notfound_header)
qed

text \<open>
  Claim C9 as stated fails for a first token longer than 15 characters: the rest of that
  token is taken as the path. The request below has \<^verbatim>\<open>/nothing\<close> as its second token and is
  answered as \<^verbatim>\<open>/json\<close>, unlike a \<^verbatim>\<open>GET\<close> of \<^verbatim>\<open>/nothing\<close>.
\<close>

theorem routing_long_method_counterexample:
  "conn_body env0 g_cached_data (Some long_method_request) = route env0 g_cached_data ''/json'' \<and>
   conn_body env0 g_cached_data (Some nothing_request) = route env0 g_cached_data ''/nothing'' \<and>
   conn_body env0 g_cached_data (Some long_method_request) \<noteq>
     conn_body env0 g_cached_data (Some nothing_request)"
proof -
  have a: "conn_body env0 g_cached_data (Some long_method_request) = route env0 g_cached_data ''/json''"
    by (rule conn_body_parsed [OF _ sscanf3_long]) (simp add: long_method_request_def)
  have b: "conn_body env0 g_cached_data (Some nothing_request) = route env0 g_cached_data ''/nothing''"
    by (rule conn_body_parsed [OF _ sscanf3_nothing]) (simp add: nothing_request_def)
  from a b route_json_differs [of env0 g_cached_data] show ?thesis by simp
qed

lemma json_text_nonempty: "json_text fmt s a now \<noteq> []"
  by (simp add: json_text_def)

lemma notfound_body_length: "length notfound_body = 229"
  by (simp add: notfound_body_def LF_def)

lemma page_length: "length page = 361"
  by (simp add: page_def LF_def)

lemma notfound_header_length: "length (notfound_header 229) < 256"
  by (simp add: notfound_header_def print_d_def dec_digits.simps CRLF_def)

lemma root_header_length: "length (root_header 361) < 256"
  by (simp add: root_header_def print_d_def dec_digits.simps CRLF_def)

lemma notfound_response:
  assumes "snd_ret (notfound_header 229) = int (length (notfound_header 229))"
  shows "send_response snd_ret (snprintf 256 (notfound_header (int (length notfound_body))))
           (snprintf 512 notfound_body) =
         [Send (notfound_header 229), Send notfound_body, Close]"
proof -
  have e: "int (length notfound_body) = 229" by (simp add: notfound_body_length)
  have b: "notfound_body \<noteq> []" "length notfound_body < 512"
    using notfound_body_length by auto
  show ?thesis unfolding e
    using notfound_header_nonempty notfound_header_length b assms by (rule send_response_ok)
qed

lemma root_response:
  assumes "snd_ret (root_header 361) = int (length (root_header 361))"
  shows "send_response snd_ret (snprintf 256 (root_header (int (length page)))) (snprintf 512 page) =
         [Send (root_header 361), Send page, Close]"
proof -
  have e: "int (length page) = 361" by (simp add: page_length)
  have b: "page \<noteq> []" "length page < 512" using page_length by auto
  have h: "root_header 361 \<noteq> []" by (simp add: root_header_def)
  show ?thesis unfolding e
    using h root_header_length b assms by (rule send_response_ok)
qed

lemma json_response:
  assumes fits: "length J < 512" and ne: "J \<noteq> []"
    and sent: "snd_ret (json_header (int (length J))) = int (length (json_header (int (length J))))"
  shows "send_response snd_ret (snprintf 256 (json_header (int (length J)))) (snprintf 512 J) =
         [Send (json_header (int (length J))), Send J, Close]"
proof -
  have "length (json_header (int (length J))) < 256"
    using fits by (intro json_header_length) simp_all
  with fits ne sent show ?thesis
    by (intro send_response_ok) (simp_all add: json_header_nonempty)
qed

text \<open>
  Claim C9, as amended. Let the text of the request, which is the bytes in front of the first
  NUL among the at most 1023 bytes that \<^verbatim>\<open>recv\<close> stored, consist of a first token of at most
  15 characters, a second token and the start of a third, with white space between them.
  Then the response is fixed by exact match of the second token: \<^verbatim>\<open>/\<close> gives the page,
  \<^verbatim>\<open>/json\<close> the JSON text of the cached pair, \<^verbatim>\<open>/events\<close> the event stream, and every other
  second token, of whatever length, the 404 page. Neither the first nor the third token
  occurs in the response. The headers of the page and of the JSON text start with the status
  200, that of the 404 page with the status 404; when \<^verbatim>\<open>send\<close> takes the header, the
  response is the header, the body and the close of the socket.
\<close>

theorem routing_by_second_token:
  "(c_str (take 1023 bytes) = w0 @ m @ w1 @ p @ w2 @ r \<and>
    (\<forall>ch \<in> set (w0 @ w1 @ w2). isspace ch) \<and> w1 \<noteq> [] \<and> w2 \<noteq> [] \<and>
    m \<noteq> [] \<and> (\<forall>ch \<in> set m. \<not> isspace ch) \<and> length m \<le> 15 \<and>
    p \<noteq> [] \<and> (\<forall>ch \<in> set p. \<not> isspace ch) \<and>
    r \<noteq> [] \<and> \<not> isspace (hd r) \<longrightarrow>
      conn_body env c (Some bytes) =
        (if p = ''/'' then
           (send_response (send_ret env) (snprintf 256 (root_header (int (length page))))
              (snprintf 512 page), True)
         else if p = ''/json'' then
           (send_response (send_ret env)
              (snprintf 256 (json_header (int (length
                 (json_text (fmt_f env) (cached_data_t.current_sample c) (cached_data_t.average c)
                    (time_now env))))))
              (snprintf 512
                 (json_text (fmt_f env) (cached_data_t.current_sample c) (cached_data_t.average c)
                    (time_now env))), True)
         else if p = ''/events'' then events_branch env
         else
           (send_response (send_ret env)
              (snprintf 256 (notfound_header (int (length notfound_body))))
              (snprintf 512 notfound_body), True))) \<and>
   take 15 (root_header n) = ''HTTP/1.1 200 OK'' \<and>
   take 15 (json_header n) = ''HTTP/1.1 200 OK'' \<and>
   take 22 (notfound_header n) = ''HTTP/1.1 404 Not Found'' \<and>
   (send_ret env (root_header 361) = int (length (root_header 361)) \<longrightarrow>
      send_response (send_ret env) (snprintf 256 (root_header (int (length page))))
        (snprintf 512 page) =
      [Send (root_header 361), Send page, Close]) \<and>
   (length (json_text (fmt_f env) (cached_data_t.current_sample c) (cached_data_t.average c)
              (time_now env)) < 512 \<and>
    send_ret env (json_header (int (length
        (json_text (fmt_f env) (cached_data_t.current_sample c) (cached_data_t.average c)
           (time_now env))))) =
      int (length (json_header (int (length
        (json_text (fmt_f env) (cached_data_t.current_sample c) (cached_data_t.average c)
           (time_now env)))))) \<longrightarrow>
      send_response (send_ret env)
        (snprintf 256 (json_header (int (length
           (json_text (fmt_f env) (cached_data_t.current_sample c) (cached_data_t.average c)
              (time_now env))))))
        (snprintf 512
           (json_text (fmt_f env) (cached_data_t.current_sample c) (cached_data_t.average c)
              (time_now env))) =
      [Send (json_header (int (length
         (json_text (fmt_f env) (cached_data_t.current_sample c) (cached_data_t.average c)
            (time_now env))))),
       Send (json_text (fmt_f env) (cached_data_t.current_sample c) (cached_data_t.average c)
               (time_now env)),
       Close]) \<and>
   (send_ret env (notfound_header 229) = int (length (notfound_header 229)) \<longrightarrow>
      send_response (send_ret env) (snprintf 256 (notfound_header (int (length notfound_body))))
        (snprintf 512 notfound_body) =
      [Send (notfound_header 229), Send notfound_body, Close])"
proof -
  have routed: "conn_body env c (Some bytes) = route env c p"
    if "c_str (take 1023 bytes) = w0 @ m @ w1 @ p @ w2 @ r"
      "\<forall>ch \<in> set (w0 @ w1 @ w2). isspace ch" "w1 \<noteq> []" "w2 \<noteq> []"
      "m \<noteq> []" "\<forall>ch \<in> set m. \<not> isspace ch" "length m \<le> 15"
      "p \<noteq> []" "\<forall>ch \<in> set p. \<not> isspace ch" "r \<noteq> []" "\<not> isspace (hd r)"
    using that by (rule conn_body_tokens)
  have heads: "take 15 (root_header n) = ''HTTP/1.1 200 OK''"
    "take 22 (notfound_header n) = ''HTTP/1.1 404 Not Found''"
    by (simp_all add: root_header_def notfound_header_def)
  note json = json_response [of
      "json_text (fmt_f env) (cached_data_t.current_sample c) (cached_data_t.average c) (time_now env)"
      "send_ret env", OF _ json_text_nonempty]
  from routed heads hd_json_header [of n] json
    root_response [of "send_ret env"] notfound_response [of "send_ret env"]
  show ?thesis unfolding route_cases by blast
qed

lemma json_text_zero:
  \<open>json_text fmt zero_sample zero_sample now =
     ''{"status":"ok",'' @
     ''"sample":{"ax":'' @ fmt 0 @ '',"ay":'' @ fmt 0 @ '',"az":'' @ fmt 0 @
     '',"gx":'' @ fmt 0 @ '',"gy":'' @ fmt 0 @ '',"gz":'' @ fmt 0 @
     '',"temp":'' @ fmt 0 @ ''},'' @
     ''"average":{"ax":'' @ fmt 0 @ '',"ay":'' @ fmt 0 @ '',"az":'' @ fmt 0 @
     '',"gx":'' @ fmt 0 @ '',"gy":'' @ fmt 0 @ '',"gz":'' @ fmt 0 @
     '',"temp":'' @ fmt 0 @ ''},'' @
     ''"timestamp":'' @ print_d now @ ''}''\<close>
  by (simp add: json_text_def zero_sample_def)

lemma get_json_zero_cache:
  assumes fits: "length (json_text (fmt_f env) zero_sample zero_sample (time_now env)) < 512"
    and sent: "send_ret env (json_header (int (length
                  (json_text (fmt_f env) zero_sample zero_sample (time_now env))))) =
               int (length (json_header (int (length
                  (json_text (fmt_f env) zero_sample zero_sample (time_now env))))))"
  shows "conn_handler env g_cached_data (Some get_json_request) =
     ([Send (json_header (int (length (json_text (fmt_f env) zero_sample zero_sample (time_now env))))),
       Send (json_text (fmt_f env) zero_sample zero_sample (time_now env)), Close, ActiveDec], True)"
proof -
  define J where "J = json_text (fmt_f env) zero_sample zero_sample (time_now env)"
  have body: "conn_body env g_cached_data (Some get_json_request) = route env g_cached_data ''/json''"
    by (rule conn_body_parsed [OF _ sscanf3_get_json]) (simp add: get_json_request_def)
  have hl: "length (json_header (int (length J))) < 256"
    using fits by (intro json_header_length) (simp_all add: J_def)
  have "send_response (send_ret env) (snprintf 256 (json_header (int (length J)))) (snprintf 512 J) =
        [Send (json_header (int (length J))), Send J, Close]"
    using fits sent hl
    by (intro send_response_ok) (simp_all add: J_def json_header_nonempty json_text_nonempty)
  then have "route env g_cached_data ''/json'' =
        ([Send (json_header (int (length J))), Send J, Close], True)"
    by (simp add: route_json g_cached_data_def J_def)
  then show ?thesis by (simp add: conn_handler_def body J_def)
qed

lemma route_same_pair:
  "get_cached_data c = get_cached_data c' \<Longrightarrow> route env c path = route env c' path"
  by (simp add: route_def)

lemma conn_handler_same_pair:
  "get_cached_data c = get_cached_data c' \<Longrightarrow> conn_handler env c arg = conn_handler env c' arg"
  by (simp add: conn_handler_def conn_body_def Let_def route_same_pair [of c c']
      split: option.splits)

text \<open>
  Claim C10. Before the first publication the cache has version 0 and \<^verbatim>\<open>get_cached_data\<close>
  returns the zero pair. Every request is answered as it is after a publication of a zero
  pair. A \<^verbatim>\<open>GET /json\<close> whose text fits the buffer and whose header is sent in full is answered
  with the header of status 200 and the JSON text of the zero pair, which starts with the
  status \<^verbatim>\<open>ok\<close> and prints the number 0 in each of its fourteen fields.
\<close>

theorem early_json_reports_zeros:
  \<open>version g_cached_data = 0 \<and>
   get_cached_data g_cached_data = (zero_sample, zero_sample) \<and>
   conn_handler env g_cached_data arg =
     conn_handler env (cache_publish zero_sample zero_sample g_cached_data) arg \<and>
   take 15 (json_header n) = ''HTTP/1.1 200 OK'' \<and>
   take 15 (json_text fmt s a now) = ''{"status":"ok",'' \<and>
   json_text fmt zero_sample zero_sample now =
     ''{"status":"ok",'' @
     ''"sample":{"ax":'' @ fmt 0 @ '',"ay":'' @ fmt 0 @ '',"az":'' @ fmt 0 @
     '',"gx":'' @ fmt 0 @ '',"gy":'' @ fmt 0 @ '',"gz":'' @ fmt 0 @
     '',"temp":'' @ fmt 0 @ ''},'' @
     ''"average":{"ax":'' @ fmt 0 @ '',"ay":'' @ fmt 0 @ '',"az":'' @ fmt 0 @
     '',"gx":'' @ fmt 0 @ '',"gy":'' @ fmt 0 @ '',"gz":'' @ fmt 0 @
     '',"temp":'' @ fmt 0 @ ''},'' @
     ''"timestamp":'' @ print_d now @ ''}'' \<and>
   (length (json_text (fmt_f env) zero_sample zero_sample (time_now env)) < 512 \<and>
    send_ret env (json_header (int (length
        (json_text (fmt_f env) zero_sample zero_sample (time_now env))))) =
      int (length (json_header (int (length
        (json_text (fmt_f env) zero_sample zero_sample (time_now env)))))) \<longrightarrow>
    conn_handler env g_cached_data (Some get_json_request) =
      ([Send (json_header (int (length
                (json_text (fmt_f env) zero_sample zero_sample (time_now env))))),
        Send (json_text (fmt_f env) zero_sample zero_sample (time_now env)), Close, ActiveDec],
       True))\<close>
proof -
  have "get_cached_data g_cached_data =
        get_cached_data (cache_publish zero_sample zero_sample g_cached_data)"
    by (simp add: get_cached_data_def cache_publish_def g_cached_data_def)
  then have same: "conn_handler env g_cached_data arg =
      conn_handler env (cache_publish zero_sample zero_sample g_cached_data) arg"
    by (rule conn_handler_same_pair)
  have st: \<open>take 15 (json_text fmt s a now) = ''{"status":"ok",''\<close>
    by (simp add: json_text_def)
  have v0: "version g_cached_data = 0"
    and p0: "get_cached_data g_cached_data = (zero_sample, zero_sample)"
    by (simp_all add: g_cached_data_def get_cached_data_def)
  from v0 p0 same st hd_json_header [of n] json_text_zero [of fmt now] get_json_zero_cache [of env]
  show ?thesis by blast
qed

lemma json_text_env0:
  "length (json_text (fmt_f env0) zero_sample zero_sample (time_now env0)) = 261"
  by (simp add: json_text_zero env0_def print_d_def dec_digits.simps)

text \<open>The statement for claim C10 in the environment \<open>env0\<close>.\<close>

theorem early_json_reports_zeros_witness:
  "conn_handler env0 g_cached_data (Some get_json_request) =
     ([Send (json_header 261),
       Send (json_text (\<lambda>x. ''0.000000'') zero_sample zero_sample 1762128000), Close, ActiveDec],
      True)"
proof -
  have fits: "length (json_text (fmt_f env0) zero_sample zero_sample (time_now env0)) < 512"
    by (simp add: json_text_env0)
  have sent: "send_ret env0 (json_header (int (length
        (json_text (fmt_f env0) zero_sample zero_sample (time_now env0))))) =
      int (length (json_header (int (length
        (json_text (fmt_f env0) zero_sample zero_sample (time_now env0))))))"
    by (simp add: env0_def)
  from early_json_reports_zeros [of env0] fits sent
  have "conn_handler env0 g_cached_data (Some get_json_request) =
      ([Send (json_header (int (length
                (json_text (fmt_f env0) zero_sample zero_sample (time_now env0))))),
        Send (json_text (fmt_f env0) zero_sample zero_sample (time_now env0)), Close, ActiveDec],
       True)" by blast
  then show ?thesis by (simp add: json_text_env0) (simp add: env0_def)
qed

section \<open>Verification: routing at concrete requests\<close>

lemma c_str_text:
  "\<forall>ch \<in> set xs. ch \<noteq> CHR 0x00 \<Longrightarrow> length xs \<le> 1023 \<Longrightarrow> c_str (take 1023 xs) = xs"
  by (simp add: c_str_def)

lemma long_path_token:
  "long_path \<noteq> []" "\<forall>ch \<in> set long_path. \<not> isspace ch" "length long_path = 301"
  "\<forall>ch \<in> set long_path. ch \<noteq> CHR 0x00"
  by (auto simp: long_path_def isspace_def)

lemma long_path_request_text:
  "c_str (take 1023 long_path_request) =
     [] @ ''GET'' @ '' '' @ long_path @ '' '' @ (''HTTP/1.1'' @ CRLF @ CRLF)"
proof -
  have "c_str (take 1023 long_path_request) = long_path_request"
    using long_path_token(3,4) by (intro c_str_text) (auto simp: long_path_request_def CRLF_def)
  also have "long_path_request =
      [] @ ''GET'' @ '' '' @ long_path @ '' '' @ (''HTTP/1.1'' @ CRLF @ CRLF)"
    by (simp add: long_path_request_def)
  finally show ?thesis .
qed

lemma route_json_env0:
  "route env0 g_cached_data ''/json'' =
     (send_response (send_ret env0)
        (snprintf 256 (json_header (int (length
           (json_text (fmt_f env0) (cached_data_t.current_sample g_cached_data)
              (cached_data_t.average g_cached_data) (time_now env0))))))
        (snprintf 512
           (json_text (fmt_f env0) (cached_data_t.current_sample g_cached_data)
              (cached_data_t.average g_cached_data) (time_now env0))), True)"
  by (rule route_json)

lemma route_notfound_path:
  assumes "path \<noteq> ''/''" "path \<noteq> ''/json''" "path \<noteq> ''/events''"
  shows "route env c path =
     (send_response (send_ret env) (snprintf 256 (notfound_header (int (length notfound_body))))
        (snprintf 512 notfound_body), True)"
  using assms by (simp add: route_cases)

text \<open>
  The statement for claim C9 at a \<^verbatim>\<open>GET\<close>, a \<^verbatim>\<open>POST\<close> and a \<^verbatim>\<open>DELETE\<close> of \<^verbatim>\<open>/json\<close>, at a \<^verbatim>\<open>GET\<close>
  of \<^verbatim>\<open>/nothing\<close> and at a \<^verbatim>\<open>GET\<close> of a path of 301 characters.
\<close>

theorem routing_by_second_token_witness:
  "conn_body env0 g_cached_data (Some get_json_request) =
     ([Send (json_header 261),
       Send (json_text (\<lambda>x. ''0.000000'') zero_sample zero_sample 1762128000), Close], True) \<and>
   conn_body env0 g_cached_data (Some post_json_request) =
     conn_body env0 g_cached_data (Some get_json_request) \<and>
   conn_body env0 g_cached_data (Some delete_json_request) =
     conn_body env0 g_cached_data (Some get_json_request) \<and>
   conn_body env0 g_cached_data (Some nothing_request) =
     ([Send (notfound_header 229), Send notfound_body, Close], True) \<and>
   conn_body env0 g_cached_data (Some long_path_request) =
     ([Send (notfound_header 229), Send notfound_body, Close], True) \<and>
   send_response (send_ret env0) (snprintf 256 (root_header (int (length page)))) (snprintf 512 page) =
     [Send (root_header 361), Send page, Close]"
proof -
  let ?ver = "''HTTP/1.1'' @ CRLF @ CRLF"
  let ?J = "json_text (fmt_f env0) (cached_data_t.current_sample g_cached_data)
              (cached_data_t.average g_cached_data) (time_now env0)"
  have g: "cached_data_t.current_sample g_cached_data = zero_sample"
    "cached_data_t.average g_cached_data = zero_sample"
    by (simp_all add: g_cached_data_def)
  have sp: "\<forall>ch \<in> set ([] @ '' '' @ '' ''). isspace ch" "'' '' \<noteq> []"
    by (simp_all add: isspace_def)
  have ver: "?ver \<noteq> []" "\<not> isspace (hd ?ver)" by (simp_all add: isspace_def)
  have get: "''GET'' \<noteq> []" "\<forall>ch \<in> set ''GET''. \<not> isspace ch" "length ''GET'' \<le> 15"
    and post: "''POST'' \<noteq> []" "\<forall>ch \<in> set ''POST''. \<not> isspace ch" "length ''POST'' \<le> 15"
    and del: "''DELETE'' \<noteq> []" "\<forall>ch \<in> set ''DELETE''. \<not> isspace ch" "length ''DELETE'' \<le> 15"
    and json: "''/json'' \<noteq> []" "\<forall>ch \<in> set ''/json''. \<not> isspace ch"
    and nopath: "''/nothing'' \<noteq> []" "\<forall>ch \<in> set ''/nothing''. \<not> isspace ch"
    by (simp_all add: isspace_def)
  have t1: "c_str (take 1023 get_json_request) = [] @ ''GET'' @ '' '' @ ''/json'' @ '' '' @ ?ver"
    and t2: "c_str (take 1023 post_json_request) = [] @ ''POST'' @ '' '' @ ''/json'' @ '' '' @ ?ver"
    and t3: "c_str (take 1023 delete_json_request) =
               [] @ ''DELETE'' @ '' '' @ ''/json'' @ '' '' @ ?ver"
    and t4: "c_str (take 1023 nothing_request) = [] @ ''GET'' @ '' '' @ ''/nothing'' @ '' '' @ ?ver"
    by (simp_all add: get_json_request_def post_json_request_def delete_json_request_def
        nothing_request_def c_str_def CRLF_def)
  note T1 = routing_by_second_token
    [where env = env0 and c = g_cached_data and ?w0.0 = "[]" and ?w1.0 = "'' ''"
       and ?w2.0 = "'' ''" and r = ?ver and n = 0 and bytes = get_json_request and m = "''GET''"
       and p = "''/json''"]
  note T2 = routing_by_second_token
    [where env = env0 and c = g_cached_data and ?w0.0 = "[]" and ?w1.0 = "'' ''"
       and ?w2.0 = "'' ''" and r = ?ver and n = 0 and bytes = post_json_request and m = "''POST''"
       and p = "''/json''"]
  note T3 = routing_by_second_token
    [where env = env0 and c = g_cached_data and ?w0.0 = "[]" and ?w1.0 = "'' ''"
       and ?w2.0 = "'' ''" and r = ?ver and n = 0 and bytes = delete_json_request and m = "''DELETE''"
       and p = "''/json''"]
  note T4 = routing_by_second_token
    [where env = env0 and c = g_cached_data and ?w0.0 = "[]" and ?w1.0 = "'' ''"
       and ?w2.0 = "'' ''" and r = ?ver and n = 0 and bytes = nothing_request and m = "''GET''"
       and p = "''/nothing''"]
  note T5 = routing_by_second_token
    [where env = env0 and c = g_cached_data and ?w0.0 = "[]" and ?w1.0 = "'' ''"
       and ?w2.0 = "'' ''" and r = ?ver and n = 0 and bytes = long_path_request and m = "''GET''"
       and p = long_path]
  from T1 [THEN conjunct1, folded route_cases] t1 sp ver get json
  have b1: "conn_body env0 g_cached_data (Some get_json_request) = route env0 g_cached_data ''/json''"
    by (simp only: simp_thms)
  from T2 [THEN conjunct1, folded route_cases] t2 sp ver post json
  have b2: "conn_body env0 g_cached_data (Some post_json_request) = route env0 g_cached_data ''/json''"
    by (simp only: simp_thms)
  from T3 [THEN conjunct1, folded route_cases] t3 sp ver del json
  have b3: "conn_body env0 g_cached_data (Some delete_json_request) =
      route env0 g_cached_data ''/json''"
    by (simp only: simp_thms)
  from T4 [THEN conjunct1, folded route_cases] t4 sp ver get nopath
  have b4: "conn_body env0 g_cached_data (Some nothing_request) = route env0 g_cached_data ''/nothing''"
    by (simp only: simp_thms)
  from T5 [THEN conjunct1, folded route_cases] long_path_request_text sp ver get long_path_token(1,2)
  have b5: "conn_body env0 g_cached_data (Some long_path_request) = route env0 g_cached_data long_path"
    by (simp only: simp_thms)
  have fits: "length ?J < 512" by (simp add: g json_text_env0)
  have sent: "send_ret env0 (json_header (int (length ?J))) =
      int (length (json_header (int (length ?J))))"
    "send_ret env0 (notfound_header 229) = int (length (notfound_header 229))"
    "send_ret env0 (root_header 361) = int (length (root_header 361))"
    by (simp_all add: env0_def)
  note U = T1 [THEN conjunct2, THEN conjunct2, THEN conjunct2, THEN conjunct2]
  from U [THEN conjunct2, THEN conjunct1] fits sent(1)
  have "send_response (send_ret env0) (snprintf 256 (json_header (int (length ?J)))) (snprintf 512 ?J) =
      [Send (json_header (int (length ?J))), Send ?J, Close]" by (simp only: simp_thms)
  then have "route env0 g_cached_data ''/json'' =
      ([Send (json_header (int (length ?J))), Send ?J, Close], True)"
    by (simp only: route_json_env0)
  then have r1: "route env0 g_cached_data ''/json'' =
      ([Send (json_header 261),
        Send (json_text (\<lambda>x. ''0.000000'') zero_sample zero_sample 1762128000), Close], True)"
    by (simp add: g json_text_env0) (simp add: env0_def)
  from U [THEN conjunct2, THEN conjunct2] sent(2)
  have nf: "send_response (send_ret env0)
        (snprintf 256 (notfound_header (int (length notfound_body)))) (snprintf 512 notfound_body) =
      [Send (notfound_header 229), Send notfound_body, Close]" by (simp only: simp_thms)
  have r4: "route env0 g_cached_data ''/nothing'' =
      ([Send (notfound_header 229), Send notfound_body, Close], True)"
    by (simp only: route_notfound nf)
  have "7 < length long_path" by (simp add: long_path_token(3))
  from route_notfound_path [OF route_long_path [OF this]]
  have r5: "route env0 g_cached_data long_path =
      ([Send (notfound_header 229), Send notfound_body, Close], True)"
    by (simp only: nf)
  from U [THEN conjunct1] sent(3)
  have r6: "send_response (send_ret env0) (snprintf 256 (root_header (int (length page))))
        (snprintf 512 page) =
      [Send (root_header 361), Send page, Close]" by (simp only: simp_thms)
  from b1 b2 b3 b4 b5 r1 r4 r5 r6 show ?thesis by (simp only: simp_thms)
qed

section \<open>Verification: admission control at the limits 2 and 0\<close>

lemma sscanf3_events:
  "sscanf3 (c_str (take 1023 events_request)) = Some (''GET'', ''/events'', ''HTTP/1.1'')"
  by (simp add: events_request_def sscanf3_def c_str_def scan_s_def skip_ws_def isspace_def CRLF_def)

lemma open_stream: "conn_handler env0 g_cached_data (Some events_request) =
    ([Send sse_header, Send sse_retry], False)"
proof -
  have "conn_body env0 g_cached_data (Some events_request) = route env0 g_cached_data ''/events''"
    by (rule conn_body_parsed [OF _ sscanf3_events]) (simp add: events_request_def)
  moreover have "route env0 g_cached_data ''/events'' = ([Send sse_header, Send sse_retry], False)"
    by (simp add: route_def events_branch_def env0_def get_cached_data_def sse_header_def
        sse_retry_def Let_def)
  ultimately show ?thesis by (simp add: conn_handler_def)
qed

text \<open>
  The statement for claim C5 at the limits 2 and 0: two admissions fill the server, the third
  connection is refused, a handler returns, the next connection is admitted and the one after
  it refused.
\<close>

theorem admission_bounded_by_max_connections_witness:
  "conn_run cfg_limit2
     [Load, Decide, SpawnOk, Load, Decide, SpawnOk, Load, Decide,
      HandlerExit env0 g_cached_data None, Load, Decide, SpawnOk, Load, Decide] conn_init =
     Some \<lparr>g_active_connections = 2, acceptor = Waiting, handlers = 2, refused = 2\<rparr> \<and>
   g_active_connections \<lparr>g_active_connections = 2, acceptor = Waiting, handlers = 2, refused = 2\<rparr> \<le>
     max_connnections cfg_limit2 \<and>
   conn_run cfg_limit2 [Load, Decide, SpawnOk, Load, Decide, SpawnOk, Load, Decide] conn_init =
     Some full_at2 \<and>
   conn_step cfg_limit2 (HandlerExit env0 g_cached_data None) full_at2 =
     Some \<lparr>g_active_connections = 1, acceptor = Waiting, handlers = 1, refused = 1\<rparr> \<and>
   conn_step cfg_limit2 (HandlerExit env0 g_cached_data (Some events_request)) full_at2 = None \<and>
   conn_run cfg_limit2 [Load, Decide] full_at2 =
     Some \<lparr>g_active_connections = 2, acceptor = Waiting, handlers = 2, refused = 2\<rparr> \<and>
   conn_run cfg_limit2 [HandlerExit env0 g_cached_data None, Load, Decide, SpawnOk, Load, Decide]
       full_at2 =
     Some \<lparr>g_active_connections = 2, acceptor = Waiting, handlers = 2, refused = 2\<rparr> \<and>
   conn_run cfg_limit2 [Load, Decide, SpawnOk] conn_init =
     Some \<lparr>g_active_connections = 1, acceptor = Waiting, handlers = 1, refused = 0\<rparr> \<and>
   conn_run cfg_limit2 [Load, Decide, SpawnFailed] conn_init = Some conn_init \<and>
   conn_run cfg_limit0 [Load, Decide] conn_init =
     Some \<lparr>g_active_connections = 0, acceptor = Waiting, handlers = 0, refused = 1\<rparr> \<and>
   accept_connection cfg_limit2 True 2 = (2, [Close], False) \<and>
   accept_connection cfg_limit2 True 1 = (2, [], True) \<and>
   accept_connection cfg_limit2 False 1 = (1, [Close], False) \<and>
   accept_connection cfg_limit0 True 0 = (0, [Close], False) \<and>
   count_list (fst (conn_handler env0 g_cached_data None)) ActiveDec = 1 \<and>
   count_list (fst (conn_handler env0 g_cached_data (Some events_request))) ActiveDec = 0"
proof -
  let ?fill = "[Load, Decide, SpawnOk, Load, Decide, SpawnOk, Load, Decide]"
  let ?sched = "[Load, Decide, SpawnOk, Load, Decide, SpawnOk, Load, Decide,
      HandlerExit env0 g_cached_data None, Load, Decide, SpawnOk, Load, Decide]"
  let ?last = "\<lparr>g_active_connections = 2, acceptor = Waiting, handlers = 2, refused = 2\<rparr>"
  have finished: "snd (conn_handler env0 g_cached_data None)"
    by (simp add: conn_handler_def conn_body_def)
  have fill: "conn_run cfg_limit2 ?fill conn_init = Some full_at2"
    by (simp add: conn_init_def cfg_limit2_def admission_check_def full_at2_def)
  have run: "conn_run cfg_limit2 ?sched conn_init = Some ?last"
    by (simp add: conn_init_def cfg_limit2_def admission_check_def handler_exit_step finished)
  have k2: "0 < max_connnections cfg_limit2" "max_connnections cfg_limit2 \<le> 2"
    "1 < max_connnections cfg_limit2"
    by (simp_all add: cfg_limit2_def)
  have k0: "max_connnections cfg_limit0 = 0" by (simp add: cfg_limit0_def)
  have streaming: "\<not> snd (conn_handler env0 g_cached_data (Some events_request))"
    by (simp add: open_stream)
  note A = admission_bounded_by_max_connections
    [where cfg = cfg_limit2 and sched = ?sched and s = ?last and env = env0
       and c = g_cached_data and arg = None and t = full_at2 and g = 2 and create_ok = True]
  note B = admission_bounded_by_max_connections
    [where cfg = cfg_limit2 and sched = "[]" and s = conn_init and env = env0
       and c = g_cached_data and arg = "Some events_request" and t = conn_init and g = 1
       and create_ok = True]
  note C = admission_bounded_by_max_connections
    [where cfg = cfg_limit0 and sched = "[]" and s = conn_init and env = env0
       and c = g_cached_data and arg = None and t = conn_init and g = 0 and create_ok = True]
  note D = admission_bounded_by_max_connections
    [where cfg = cfg_limit2 and sched = "[]" and s = conn_init and env = env0
       and c = g_cached_data and arg = "Some events_request" and t = full_at2 and g = 1
       and create_ok = True]
  have hA: "acceptor full_at2 = Waiting"
    "max_connnections cfg_limit2 \<le> g_active_connections full_at2"
    "g_active_connections full_at2 = max_connnections cfg_limit2" "0 < handlers full_at2"
    by (simp_all add: full_at2_def cfg_limit2_def)
  have hB: "acceptor conn_init = Waiting"
    "g_active_connections conn_init < max_connnections cfg_limit2"
    by (simp_all add: conn_init_def cfg_limit2_def)
  have r1: "full_at2\<lparr>g_active_connections := g_active_connections full_at2 - 1,
                     handlers := handlers full_at2 - 1\<rparr> =
            \<lparr>g_active_connections = 1, acceptor = Waiting, handlers = 1, refused = 1\<rparr>"
    and r2: "full_at2\<lparr>acceptor := Waiting, refused := refused full_at2 + 1\<rparr> =
            \<lparr>g_active_connections = 2, acceptor = Waiting, handlers = 2, refused = 2\<rparr>"
    by (simp_all add: full_at2_def)
  have r3: "conn_init\<lparr>g_active_connections := g_active_connections conn_init + 1,
                     acceptor := Waiting, handlers := handlers conn_init + 1\<rparr> =
            \<lparr>g_active_connections = 1, acceptor = Waiting, handlers = 1, refused = 0\<rparr>"
    and r4: "conn_init\<lparr>acceptor := Waiting\<rparr> = conn_init"
    and r5: "conn_init\<lparr>acceptor := Waiting, refused := refused conn_init + 1\<rparr> =
            \<lparr>g_active_connections = 0, acceptor = Waiting, handlers = 0, refused = 1\<rparr>"
    by (simp_all add: conn_init_def)
  from A [THEN conjunct1] run k2(1)
  have a1: "g_active_connections ?last \<le> max_connnections cfg_limit2"
    by blast
  from A [THEN conjunct2, THEN conjunct1] have a2:
    "conn_step cfg_limit2 (HandlerExit env0 g_cached_data None) full_at2 =
       Some \<lparr>g_active_connections = 1, acceptor = Waiting, handlers = 1, refused = 1\<rparr>"
    by (simp only: hA(4) finished r1 simp_thms if_True)
  from D [THEN conjunct2, THEN conjunct1] have a3:
    "conn_step cfg_limit2 (HandlerExit env0 g_cached_data (Some events_request)) full_at2 = None"
    by (simp only: streaming simp_thms if_False)
  from A [THEN conjunct2, THEN conjunct2, THEN conjunct1] hA k2(1)
  have a4: "conn_run cfg_limit2 [Load, Decide] full_at2 =
       Some \<lparr>g_active_connections = 2, acceptor = Waiting, handlers = 2, refused = 2\<rparr>"
    by (simp only: r2 simp_thms)
  note A4 = A [THEN conjunct2, THEN conjunct2, THEN conjunct2, THEN conjunct2]
  note B4 = B [THEN conjunct2, THEN conjunct2, THEN conjunct2, THEN conjunct2]
  note C3 = C [THEN conjunct2, THEN conjunct2, THEN conjunct2]
  from A4 [THEN conjunct2, THEN conjunct1] hA k2(1) finished have a5:
    "conn_run cfg_limit2 [HandlerExit env0 g_cached_data None, Load, Decide, SpawnOk, Load, Decide]
        full_at2 =
       Some \<lparr>g_active_connections = 2, acceptor = Waiting, handlers = 2, refused = 2\<rparr>"
    by (simp only: r2 simp_thms)
  from B4 [THEN conjunct1] hB k2(1)
  have a6: "conn_run cfg_limit2 [Load, Decide, SpawnOk] conn_init =
       Some \<lparr>g_active_connections = 1, acceptor = Waiting, handlers = 1, refused = 0\<rparr>"
    "conn_run cfg_limit2 [Load, Decide, SpawnFailed] conn_init = Some conn_init"
    by (simp_all only: r3 r4 simp_thms)
  from C3 [THEN conjunct1] k0 hB(1)
  have a7: "conn_run cfg_limit0 [Load, Decide] conn_init =
       Some \<lparr>g_active_connections = 0, acceptor = Waiting, handlers = 0, refused = 1\<rparr>"
    by (simp only: r5 simp_thms)
  note A6 = A4 [THEN conjunct2, THEN conjunct2]
  note B6 = B4 [THEN conjunct2, THEN conjunct2]
  note C7 = C3 [THEN conjunct2, THEN conjunct2, THEN conjunct2, THEN conjunct2]
  from A6 [THEN conjunct1] k2(1,2)
  have a8: "accept_connection cfg_limit2 True 2 = (2, [Close], False)" by (simp only: simp_thms)
  from B6 [THEN conjunct2, THEN conjunct2, THEN conjunct1] k2(1,3)
  have a9: "accept_connection cfg_limit2 True 1 = (2, [], True)"
    "accept_connection cfg_limit2 False 1 = (1, [Close], False)" by simp_all
  from C7 [THEN conjunct1] k0
  have a10: "accept_connection cfg_limit0 True 0 = (0, [Close], False)" by (simp only: simp_thms)
  note A10 = A6 [THEN conjunct2, THEN conjunct2, THEN conjunct2, THEN conjunct2]
  note B10 = B6 [THEN conjunct2, THEN conjunct2, THEN conjunct2, THEN conjunct2]
  from A10 [THEN conjunct1] finished
  have a11: "count_list (fst (conn_handler env0 g_cached_data None)) ActiveDec = 1"
    by (simp only: simp_thms)
  from B10 [THEN conjunct2] streaming
  have a12: "count_list (fst (conn_handler env0 g_cached_data (Some events_request))) ActiveDec = 0"
    by (simp only: simp_thms)
  from run a1 fill a2 a3 a4 a5 a6 a7 a8 a9 a10 a11 a12 show ?thesis by blast
qed

end
